theory Spec2Isabelle
  imports Main
begin

section \<open>Go library functions used by the package\<close>

text \<open>
  The package \<^verbatim>\<open>rconfig\<close> works on Go strings. A Go string is a sequence of bytes,
  modelled as \<^typ>\<open>string\<close>. The functions of this section model the parts of the Go
  standard library whose results decide what the package does: \<^verbatim>\<open>strings.Split\<close>,
  \<^verbatim>\<open>strings.TrimSpace\<close>, \<^verbatim>\<open>strings.ToLower\<close> (both restricted to ASCII),
  \<^verbatim>\<open>strconv.ParseUint\<close> and \<^verbatim>\<open>strconv.ParseInt\<close> (for base 10, the only base the
  package passes).
\<close>

datatype error =
    ErrSyntax
  | ErrRange
  | ErrExternal string
  | Errorf string error
  | ErrorValue string string
  | Panic string

text \<open>
  \<^const>\<open>ErrSyntax\<close> and \<^const>\<open>ErrRange\<close> are the two \<^verbatim>\<open>strconv\<close> errors;
  \<^const>\<open>ErrExternal\<close> is an error value produced by a collaborator that is not modelled
  in detail; \<^term>\<open>Errorf p e\<close> is \<^verbatim>\<open>fmt.Errorf(p + ": %w", e)\<close>;
  \<^term>\<open>ErrorValue p v\<close> is an error message built from the text \<open>p\<close> and the
  offending textual value \<open>v\<close>; \<^const>\<open>Panic\<close> is a run-time panic.
\<close>

fun has_prefix :: "string \<Rightarrow> string \<Rightarrow> bool" where
  "has_prefix [] s = True"
| "has_prefix (p # ps) [] = False"
| "has_prefix (p # ps) (c # cs) = (p = c \<and> has_prefix ps cs)"

text \<open>
  \<^verbatim>\<open>strings.Split(s, sep)\<close> for a non-empty separator: the text is cut at every
  occurrence of \<open>sep\<close>, scanning from the left, occurrences not overlapping. The
  accumulator \<open>cur\<close> holds the piece being read. (With an empty separator Go explodes
  the text into its characters; the package never passes one.)
\<close>

fun split_from :: "string \<Rightarrow> string \<Rightarrow> string \<Rightarrow> string list" where
  "split_from sep cur [] = [cur]"
| "split_from sep cur (c # cs) =
     (if sep \<noteq> [] \<and> has_prefix sep (c # cs)
      then cur # split_from sep [] (drop (length sep - 1) cs)
      else split_from sep (cur @ [c]) cs)"

definition strings_Split :: "string \<Rightarrow> string \<Rightarrow> string list" where
  "strings_Split s sep = (if sep = [] then map (\<lambda>c. [c]) s else split_from sep [] s)"

definition isSpace :: "char \<Rightarrow> bool" where
  "isSpace c = (c \<in> set [CHR '' '', CHR 0x09, CHR 0x0A, CHR 0x0B, CHR 0x0C, CHR 0x0D])"

definition strings_TrimSpace :: "string \<Rightarrow> string" where
  "strings_TrimSpace s = rev (dropWhile isSpace (rev (dropWhile isSpace s)))"

definition toLower :: "char \<Rightarrow> char" where
  "toLower c = (if 65 \<le> (of_char c :: nat) \<and> (of_char c :: nat) \<le> 90
       then (case c of Char b0 b1 b2 b3 b4 b5 b6 b7 \<Rightarrow> Char b0 b1 b2 b3 b4 True b6 b7)
       else c)"

definition strings_ToLower :: "string \<Rightarrow> string" where
  "strings_ToLower s = map toLower s"

definition isDigit :: "char \<Rightarrow> bool" where
  "isDigit c = (48 \<le> (of_char c :: nat) \<and> (of_char c :: nat) \<le> 57)"

definition digitVal :: "char \<Rightarrow> nat" where
  "digitVal c = (of_char c :: nat) - 48"

text \<open>
  The loop of \<^verbatim>\<open>strconv.ParseUint(s, 10, bitSize)\<close> over the bytes of the text:
  \<open>n\<close> is the \<^verbatim>\<open>uint64\<close> accumulator, \<open>maxVal = 2 ^ bitSize - 1\<close>, the cutoff is
  \<^verbatim>\<open>maxUint64/10 + 1\<close>, and the sum \<^verbatim>\<open>n1 := n + d\<close> wraps at \<open>2 ^ 64\<close>.
\<close>

fun ParseUint_loop :: "nat \<Rightarrow> nat \<Rightarrow> string \<Rightarrow> error + nat" where
  "ParseUint_loop maxVal n [] = Inr n"
| "ParseUint_loop maxVal n (c # cs) =
     (if \<not> isDigit c then Inl ErrSyntax
      else if n \<ge> (2 ^ 64 - 1) div 10 + 1 then Inl ErrRange
      else let n10 = n * 10; n1 = (n10 + digitVal c) mod 2 ^ 64 in
        if n1 < n10 \<or> n1 > maxVal then Inl ErrRange
        else ParseUint_loop maxVal n1 cs)"

definition strconv_ParseUint :: "nat \<Rightarrow> string \<Rightarrow> nat \<Rightarrow> error + nat" where
  "strconv_ParseUint IntSize s bitSize =
     (if s = [] then Inl ErrSyntax
      else let bits = (if bitSize = 0 then IntSize else bitSize) in
        ParseUint_loop (2 ^ bits - 1) 0 s)"

definition strconv_ParseInt :: "nat \<Rightarrow> string \<Rightarrow> nat \<Rightarrow> error + int" where
  "strconv_ParseInt IntSize s bitSize =
     (if s = [] then Inl ErrSyntax
      else let neg = (hd s = CHR ''-'');
               s1 = (if hd s = CHR ''+'' \<or> hd s = CHR ''-'' then tl s else s) in
        case strconv_ParseUint IntSize s1 bitSize of
          Inl ErrRange \<Rightarrow> Inl ErrRange
        | Inl e \<Rightarrow> Inl e
        | Inr un \<Rightarrow>
            let bits = (if bitSize = 0 then IntSize else bitSize);
                cutoff = 2 ^ (bits - 1) in
            if \<not> neg \<and> un \<ge> cutoff then Inl ErrRange
            else if neg \<and> un > cutoff then Inl ErrRange
            else Inr (if neg then - int un else int un))"

section \<open>Data model\<close>

text \<open>
  A struct tag is read with \<^verbatim>\<open>Tag.Get(key)\<close>, which returns the empty string both
  for an absent key and for a key with an empty value; so a tag is the record of the six
  strings the package reads.
\<close>

record StructTag =
  tag_default :: string
  tag_vardefault :: string
  tag_env :: string
  tag_flag :: string
  tag_description :: string
  tag_delimiter :: string

datatype intKind = KInt | KInt8 | KInt16 | KInt32 | KInt64
datatype uintKind = KUint | KUint8 | KUint16 | KUint32 | KUint64
datatype floatKind = Float32 | Float64

text \<open>
  The Go types a field can have, as far as the package tells them apart:
  \<^verbatim>\<open>time.Duration\<close> and \<^verbatim>\<open>time.Time\<close> are recognised by type before the switch on the
  kind; \<open>SliceOther\<close> is a slice of anything but \<^verbatim>\<open>int\<close> or \<^verbatim>\<open>string\<close>, and \<open>Other\<close>
  any kind without a case (maps, pointers, channels, ...). Fields are exported and of the
  built-in types themselves, so that the reflective setters and type assertions of the
  source do not panic.
\<close>

datatype gotype =
    String | Bool | IntT intKind | UintT uintKind | FloatT floatKind
  | Duration | Time | Struct "StructField list"
  | SliceInt | SliceString | SliceOther | Other
and StructField = StructField (Name: string) (Tag: StructTag) (Type: gotype)

text \<open>
  Values in memory. \<open>'f\<close> stands for \<^verbatim>\<open>float64\<close> values and \<open>'t\<close> for
  \<^verbatim>\<open>time.Time\<close> values, neither of which is interpreted here; a \<^verbatim>\<open>time.Duration\<close>
  is its number of nanoseconds.
\<close>

datatype ('f, 't) val =
    VString string | VBool bool | VInt int | VUint nat | VFloat 'f
  | VDuration int | VTime 't | VIntSlice "int list" | VStringSlice "string list"

text \<open>
  Memory is addressed by the path of a field in the configuration struct (the indices of
  the fields from the root), by the path of the \<^verbatim>\<open>time.Time\<close> field for which
  \<^verbatim>\<open>execTags\<close> allocated the local string \<^verbatim>\<open>sVar\<close>, or by a number for a variable owned
  by an external flag set.
\<close>

type_synonym path = "nat list"

datatype addr = FieldAddr path | SVarAddr path | ExternAddr nat

type_synonym ('f, 't) heap = "addr \<Rightarrow> ('f, 't) val"

text \<open>
  A \<^verbatim>\<open>pflag\<close> flag: its name and shorthand, the variable its value is bound to, the
  type of that variable, the bit \<^verbatim>\<open>Changed\<close> telling that the user supplied it, and the
  value object's own record of having been set.
\<close>

record Flag =
  flag_Name :: string
  flag_Shorthand :: string
  flag_Target :: addr
  flag_Type :: gotype
  flag_Changed :: bool
  flag_ValueSet :: bool

type_synonym FlagSet = "Flag list"

text \<open>
  The collaborators the package calls and does not define: the process environment, the
  standard library's parsers of floats, durations and times, the conversion
  by which a \<^verbatim>\<open>pflag\<close> value of a given type reads a text, the width of \<^verbatim>\<open>int\<close>, and \<^verbatim>\<open>deriveEnvVarName\<close>, a function of the package
  whose source is not available.
\<close>

record ('f, 't) extern =
  IntSize :: nat
  os_LookupEnv :: "string \<Rightarrow> string option"
  deriveEnvVarName :: "string \<Rightarrow> string"
  strconv_ParseFloat :: "string \<Rightarrow> error + 'f"
  float_zero :: 'f
  float32 :: "'f \<Rightarrow> 'f"
  time_ParseDuration :: "string \<Rightarrow> error + int"
  time_Parse :: "string \<Rightarrow> string \<Rightarrow> error + 't"
  time_Unix :: "int \<Rightarrow> 't"
  pflag_Parse :: "gotype \<Rightarrow> string \<Rightarrow> error + ('f, 't) val"

text \<open>The package-level variables.\<close>

record pkgvars =
  autoEnv :: bool
  variableDefaults :: "string \<Rightarrow> string option"
  timeParserFormats :: "string list"

section \<open>Field metadata interpreter\<close>

definition varDefault :: "pkgvars \<Rightarrow> string \<Rightarrow> string \<Rightarrow> string" where
  "varDefault G name def =
     (if name \<noteq> [] then (case variableDefaults G name of Some v \<Rightarrow> v | None \<Rightarrow> def)
      else def)"

definition envName :: "('f, 't) extern \<Rightarrow> pkgvars \<Rightarrow> string \<Rightarrow> StructTag \<Rightarrow> string" where
  "envName X G name tag =
     (if tag_env tag = [] \<and> autoEnv G then deriveEnvVarName X name else tag_env tag)"

definition envDefault ::
  "('f, 't) extern \<Rightarrow> pkgvars \<Rightarrow> string \<Rightarrow> StructTag \<Rightarrow> string \<Rightarrow> string" where
  "envDefault X G name tag def =
     (let env = envName X G name tag in
      if env \<noteq> [] then (case os_LookupEnv X env of Some e \<Rightarrow> e | None \<Rightarrow> def)
      else def)"

definition effectiveValue :: "('f, 't) extern \<Rightarrow> pkgvars \<Rightarrow> string \<Rightarrow> StructTag \<Rightarrow> string" where
  "effectiveValue X G name tag =
     envDefault X G name tag (varDefault G (tag_vardefault tag) (tag_default tag))"

section \<open>The flag set\<close>

text \<open>
  The flag-binding collaborator \<^verbatim>\<open>pflag\<close>, at its interface. \<^verbatim>\<open>AddFlag\<close> panics when
  a flag of the same name or shorthand is already defined, and when a shorthand has more
  than one character. \<^verbatim>\<open>XxxVar(p, name, value, usage)\<close> and
  \<^verbatim>\<open>XxxVarP(p, name, shorthand, value, usage)\<close> store the default \<open>value\<close> in \<open>*p\<close> and
  add the flag; the source picks the first when the \<^verbatim>\<open>flag\<close> tag has one
  comma-separated part and the second, with the second part as the shorthand, otherwise.
  Usage texts are not modelled: no value depends on them.
\<close>

type_synonym ('f, 't) state = "('f, 't) heap \<times> FlagSet"

definition fs_Lookup :: "FlagSet \<Rightarrow> string \<Rightarrow> Flag option" where
  "fs_Lookup fs name = find (\<lambda>g. flag_Name g = name) fs"

definition fs_AddFlag :: "FlagSet \<Rightarrow> Flag \<Rightarrow> error + FlagSet" where
  "fs_AddFlag fs g =
     (if fs_Lookup fs (flag_Name g) \<noteq> None then Inl (Panic ''flag redefined'')
      else if flag_Shorthand g = [] then Inr (fs @ [g])
      else if length (flag_Shorthand g) > 1
        then Inl (Panic ''shorthand is more than one ASCII character'')
      else if find (\<lambda>g'. flag_Shorthand g' = flag_Shorthand g) fs \<noteq> None
        then Inl (Panic ''shorthand redefined'')
      else Inr (fs @ [g]))"

definition fs_Var ::
  "addr \<Rightarrow> gotype \<Rightarrow> string list \<Rightarrow> ('f, 't) val \<Rightarrow> ('f, 't) state \<Rightarrow> error + ('f, 't) state" where
  "fs_Var a ty parts v st =
     (case parts of
        [] \<Rightarrow> Inl (Panic ''index out of range'')
      | name # rest \<Rightarrow>
          (case fs_AddFlag (snd st)
                  \<lparr>flag_Name = name,
                   flag_Shorthand = (case rest of [] \<Rightarrow> [] | sh # _ \<Rightarrow> sh),
                   flag_Target = a, flag_Type = ty, flag_Changed = False,
                   flag_ValueSet = False\<rparr> of
             Inl e \<Rightarrow> Inl e
           | Inr fs' \<Rightarrow> Inr ((fst st)(a := v), fs')))"

text \<open>
  \<^verbatim>\<open>flag.Value.Set(text)\<close>: a string flag stores the text; a flag of another scalar
  type stores what the collaborator's conversion reads from the text, or rejects the text;
  a slice flag replaces its default by the slice read from the text at the first call and
  appends to its value at later calls. The arguments are the type of the flag's variable,
  whether the value was set before, and the current value.
\<close>

definition appendVal :: "('f, 't) val \<Rightarrow> ('f, 't) val \<Rightarrow> ('f, 't) val" where
  "appendVal cur v =
     (case (cur, v) of
        (VIntSlice xs, VIntSlice ys) \<Rightarrow> VIntSlice (xs @ ys)
      | (VStringSlice xs, VStringSlice ys) \<Rightarrow> VStringSlice (xs @ ys)
      | _ \<Rightarrow> v)"

definition isSlice :: "gotype \<Rightarrow> bool" where
  "isSlice ty = (ty = SliceInt \<or> ty = SliceString)"

definition flag_Value_Set ::
  "('f, 't) extern \<Rightarrow> gotype \<Rightarrow> bool \<Rightarrow> ('f, 't) val \<Rightarrow> string \<Rightarrow> error + ('f, 't) val" where
  "flag_Value_Set X ty wasSet cur text =
     (if ty = String then Inr (VString text)
      else
        case pflag_Parse X ty text of
          Inl e \<Rightarrow> Inl e
        | Inr v \<Rightarrow> Inr (if isSlice ty \<and> wasSet then appendVal cur v else v))"

text \<open>
  \<^verbatim>\<open>FlagSet.Set(name, text)\<close>, which the argument parser calls for every flag occurrence
  it finds: set the value, then mark the flag as changed.
\<close>

definition fs_Set ::
  "('f, 't) extern \<Rightarrow> string \<Rightarrow> string \<Rightarrow> ('f, 't) state \<Rightarrow> error + ('f, 't) state" where
  "fs_Set X name text st =
     (case fs_Lookup (snd st) name of
        None \<Rightarrow> Inl (ErrorValue ''no such flag'' name)
      | Some g \<Rightarrow>
          (case flag_Value_Set X (flag_Type g) (flag_ValueSet g) (fst st (flag_Target g)) text of
             Inl e \<Rightarrow> Inl (Errorf (''invalid argument for flag '' @ name) e)
           | Inr v \<Rightarrow>
               Inr ((fst st)(flag_Target g := v),
                    map (\<lambda>g'. if flag_Name g' = name
                               then g'\<lparr>flag_Changed := True, flag_ValueSet := True\<rparr>
                               else g') (snd st))))"

text \<open>
  \<^verbatim>\<open>FlagSet.Parse(args)\<close>. The syntax of the argument list belongs to the collaborator;
  the command line is given here as what the parser extracts from it: the flag occurrences
  in order, each the long name of a flag with the text supplied for it (for a boolean flag
  written without a value, the text \<^verbatim>\<open>true\<close>). An unknown flag or a rejected text is the
  parse error.
\<close>

fun fs_Parse ::
  "('f, 't) extern \<Rightarrow> (string \<times> string) list \<Rightarrow> ('f, 't) state \<Rightarrow> error + ('f, 't) state" where
  "fs_Parse X [] st = Inr st"
| "fs_Parse X ((name, text) # args) st =
     (case fs_Set X name text st of
        Inl e \<Rightarrow> Inl e
      | Inr st' \<Rightarrow> fs_Parse X args st')"

section \<open>Type coercion\<close>

definition intBits :: "('f, 't) extern \<Rightarrow> intKind \<Rightarrow> nat" where
  "intBits X k = (case k of KInt \<Rightarrow> IntSize X | KInt8 \<Rightarrow> 8 | KInt16 \<Rightarrow> 16 | KInt32 \<Rightarrow> 32
      | KInt64 \<Rightarrow> 64)"

definition uintBits :: "('f, 't) extern \<Rightarrow> uintKind \<Rightarrow> nat" where
  "uintBits X k =
     (case k of KUint \<Rightarrow> IntSize X | KUint8 \<Rightarrow> 8 | KUint16 \<Rightarrow> 16 | KUint32 \<Rightarrow> 32
      | KUint64 \<Rightarrow> 64)"

text \<open>The conversion of an \<^verbatim>\<open>int64\<close> to a signed integer type of \<open>bits\<close> bits.\<close>

definition wrapInt :: "nat \<Rightarrow> int \<Rightarrow> int" where
  "wrapInt bits x = (x + 2 ^ (bits - 1)) mod 2 ^ bits - 2 ^ (bits - 1)"

definition wrapUint :: "nat \<Rightarrow> nat \<Rightarrow> nat" where
  "wrapUint bits x = x mod 2 ^ bits"

definition toFloat :: "('f, 't) extern \<Rightarrow> floatKind \<Rightarrow> 'f \<Rightarrow> 'f" where
  "toFloat X k x = (case k of Float32 \<Rightarrow> float32 X x | Float64 \<Rightarrow> x)"

text \<open>
  Modelled from the spec: \<^verbatim>\<open>parseIntForType\<close> and \<^verbatim>\<open>parseUintForType\<close> are functions of
  the package whose source is not available. The spec says of the integer families
  (8, 16, 32 and 64 bits, signed and unsigned, and the platform-width variants) that the
  text is parsed as base 10; so they are \<^verbatim>\<open>strconv.ParseInt\<close> and
  \<^verbatim>\<open>strconv.ParseUint\<close> in base 10 at the width of the field's kind.
\<close>

definition parseIntForType :: "('f, 't) extern \<Rightarrow> string \<Rightarrow> intKind \<Rightarrow> error + int" where
  "parseIntForType X s k = strconv_ParseInt (IntSize X) s (intBits X k)"

definition parseUintForType :: "('f, 't) extern \<Rightarrow> string \<Rightarrow> uintKind \<Rightarrow> error + nat" where
  "parseUintForType X s k = strconv_ParseUint (IntSize X) s (uintBits X k)"

text \<open>
  The loop of the \<^verbatim>\<open>[]int\<close> case: every piece is trimmed and parsed as a 64-bit
  integer, then converted to \<^verbatim>\<open>int\<close>; the first piece that does not parse ends the loop
  with its error.
\<close>

fun parseIntSlice :: "('f, 't) extern \<Rightarrow> string list \<Rightarrow> error + int list" where
  "parseIntSlice X [] = Inr []"
| "parseIntSlice X (v # vs) =
     (case strconv_ParseInt (IntSize X) (strings_TrimSpace v) 64 of
        Inl e \<Rightarrow> Inl e
      | Inr it \<Rightarrow>
          (case parseIntSlice X vs of
             Inl e \<Rightarrow> Inl e
           | Inr def \<Rightarrow> Inr (wrapInt (IntSize X) it # def)))"

text \<open>The walk through \<^verbatim>\<open>timeParserFormats\<close>: the first format that parses the text.\<close>

fun tryFormats :: "('f, 't) extern \<Rightarrow> string list \<Rightarrow> string \<Rightarrow> 't option" where
  "tryFormats X [] s = None"
| "tryFormats X (tf # tfs) s =
     (case time_Parse X tf s of Inr t \<Rightarrow> Some t | Inl e \<Rightarrow> tryFormats X tfs s)"

section \<open>Single-pass resolution\<close>

text \<open>
  A deferred action of \<^verbatim>\<open>execTags\<close> is the closure over a \<^verbatim>\<open>time.Time\<close> field and the
  address of its string \<^verbatim>\<open>sVar\<close>; both are given by the path of the field.
\<close>

datatype afterFunc = TimeAfter path

definition kindStruct :: "gotype \<Rightarrow> bool" where
  "kindStruct ty = (case ty of Struct fl \<Rightarrow> True | Time \<Rightarrow> True | _ \<Rightarrow> False)"

definition inert :: "StructTag \<Rightarrow> gotype \<Rightarrow> bool" where
  "inert tag ty =
     (tag_default tag = [] \<and> tag_env tag = [] \<and> tag_flag tag = [] \<and> \<not> kindStruct ty)"

text \<open>
  The pattern every scalar case of \<^verbatim>\<open>execTags\<close> ends with: with a \<^verbatim>\<open>flag\<close> tag the
  variable at \<open>a\<close> is bound to a new flag whose default is \<open>v\<close>, without one \<open>v\<close> is
  stored directly.
\<close>

definition bindOrSet ::
  "StructTag \<Rightarrow> addr \<Rightarrow> gotype \<Rightarrow> string list \<Rightarrow> ('f, 't) val \<Rightarrow> ('f, 't) state
     \<Rightarrow> error + ('f, 't) state" where
  "bindOrSet tag a ty parts v st =
     (if tag_flag tag \<noteq> [] then fs_Var a ty parts v st
      else Inr ((fst st)(a := v), snd st))"

definition withAfter ::
  "afterFunc list \<Rightarrow> error + ('f, 't) state \<Rightarrow> error + (('f, 't) state \<times> afterFunc list)" where
  "withAfter afs r = (case r of Inl e \<Rightarrow> Inl e | Inr st \<Rightarrow> Inr (st, afs))"

text \<open>The body of the loop of \<^verbatim>\<open>execTags\<close> for a field that is not a nested struct.\<close>

definition execTags_leaf ::
  "('f, 't) extern \<Rightarrow> pkgvars \<Rightarrow> path \<Rightarrow> string \<Rightarrow> StructTag \<Rightarrow> gotype \<Rightarrow> ('f, 't) state
     \<Rightarrow> error + (('f, 't) state \<times> afterFunc list)" where
  "execTags_leaf X G p name tag ty st =
     (if inert tag ty then Inr (st, [])
      else
        let value = effectiveValue X G name tag;
            parts = strings_Split (tag_flag tag) '','' in
        case ty of
          Duration \<Rightarrow>
            (case time_ParseDuration X value of
               Inl e \<Rightarrow>
                 if value \<noteq> [] then Inl (Errorf ''parsing time.Duration'' e)
                 else withAfter [] (bindOrSet tag (FieldAddr p) ty parts (VDuration 0) st)
             | Inr v \<Rightarrow> withAfter [] (bindOrSet tag (FieldAddr p) ty parts (VDuration v) st))
        | Time \<Rightarrow>
            withAfter [TimeAfter p] (bindOrSet tag (SVarAddr p) String parts (VString value) st)
        | String \<Rightarrow> withAfter [] (bindOrSet tag (FieldAddr p) ty parts (VString value) st)
        | Bool \<Rightarrow>
            withAfter [] (bindOrSet tag (FieldAddr p) ty parts (VBool (value = ''true'')) st)
        | IntT k \<Rightarrow>
            (case parseIntForType X value k of
               Inl e \<Rightarrow>
                 if value \<noteq> [] then Inl (Errorf ''parsing int'' e)
                 else withAfter [] (bindOrSet tag (FieldAddr p) ty parts (VInt 0) st)
             | Inr vt \<Rightarrow>
                 withAfter []
                   (bindOrSet tag (FieldAddr p) ty parts (VInt (wrapInt (intBits X k) vt)) st))
        | UintT k \<Rightarrow>
            (case parseUintForType X value k of
               Inl e \<Rightarrow>
                 if value \<noteq> [] then Inl (Errorf ''parsing uint'' e)
                 else withAfter [] (bindOrSet tag (FieldAddr p) ty parts (VUint 0) st)
             | Inr vt \<Rightarrow>
                 withAfter []
                   (bindOrSet tag (FieldAddr p) ty parts (VUint (wrapUint (uintBits X k) vt)) st))
        | FloatT k \<Rightarrow>
            (case strconv_ParseFloat X value of
               Inl e \<Rightarrow>
                 if value \<noteq> [] then Inl (Errorf ''parsing float'' e)
                 else withAfter []
                   (bindOrSet tag (FieldAddr p) ty parts (VFloat (toFloat X k (float_zero X))) st)
             | Inr vt \<Rightarrow>
                 withAfter [] (bindOrSet tag (FieldAddr p) ty parts (VFloat (toFloat X k vt)) st))
        | SliceInt \<Rightarrow>
            (case parseIntSlice X (strings_Split value '','') of
               Inl e \<Rightarrow> Inl (Errorf ''parsing int'' e)
             | Inr def \<Rightarrow> withAfter [] (fs_Var (FieldAddr p) ty parts (VIntSlice def) st))
        | SliceString \<Rightarrow>
            (let del = (if length (tag_delimiter tag) = 0 then '','' else tag_delimiter tag);
                 def = (if value \<noteq> [] then strings_Split value del else [])
             in withAfter [] (fs_Var (FieldAddr p) ty parts (VStringSlice def) st))
        | _ \<Rightarrow> Inr (st, []))"

text \<open>
  \<^verbatim>\<open>execTags\<close> on the struct at path \<open>pre\<close>, from its field number \<open>i\<close> on; a nested
  struct is walked by the recursive call, whose deferred actions are appended.
\<close>

fun execTags ::
  "('f, 't) extern \<Rightarrow> pkgvars \<Rightarrow> path \<Rightarrow> nat \<Rightarrow> StructField list \<Rightarrow> ('f, 't) state
     \<Rightarrow> error + (('f, 't) state \<times> afterFunc list)"
and execTags_field ::
  "('f, 't) extern \<Rightarrow> pkgvars \<Rightarrow> path \<Rightarrow> StructField \<Rightarrow> ('f, 't) state
     \<Rightarrow> error + (('f, 't) state \<times> afterFunc list)" where
  "execTags X G pre i [] st = Inr (st, [])"
| "execTags X G pre i (f # fl) st =
     (case execTags_field X G (pre @ [i]) f st of
        Inl e \<Rightarrow> Inl e
      | Inr (st1, afs1) \<Rightarrow>
          (case execTags X G pre (Suc i) fl st1 of
             Inl e \<Rightarrow> Inl e
           | Inr (st2, afs2) \<Rightarrow> Inr (st2, afs1 @ afs2)))"
| "execTags_field X G p (StructField name tag (Struct fl)) st = execTags X G p 0 fl st"
| "execTags_field X G p (StructField name tag ty) st = execTags_leaf X G p name tag ty st"

definition the_string :: "('f, 't) val \<Rightarrow> string" where
  "the_string v = (case v of VString s \<Rightarrow> s | _ \<Rightarrow> [])"

text \<open>The deferred action of a \<^verbatim>\<open>time.Time\<close> field, run after the arguments are parsed.\<close>

definition timeAfterFunc ::
  "('f, 't) extern \<Rightarrow> pkgvars \<Rightarrow> path \<Rightarrow> ('f, 't) heap \<Rightarrow> error + ('f, 't) heap" where
  "timeAfterFunc X G p h =
     (let sVar = the_string (h (SVarAddr p)) in
      if sVar = [] then Inr h
      else
        case strconv_ParseInt (IntSize X) sVar 64 of
          Inr ts \<Rightarrow> Inr (h(FieldAddr p := VTime (time_Unix X ts)))
        | Inl e \<Rightarrow>
            (case tryFormats X (timeParserFormats G) sVar of
               Some t \<Rightarrow> Inr (h(FieldAddr p := VTime t))
             | None \<Rightarrow> Inl (ErrorValue ''value did not match expected time formats'' sVar)))"

fun runAfterFuncs ::
  "('f, 't) extern \<Rightarrow> pkgvars \<Rightarrow> afterFunc list \<Rightarrow> ('f, 't) heap \<Rightarrow> error + ('f, 't) heap" where
  "runAfterFuncs X G [] h = Inr h"
| "runAfterFuncs X G (TimeAfter p # afs) h =
     (case timeAfterFunc X G p h of
        Inl e \<Rightarrow> Inl e
      | Inr h' \<Rightarrow> runAfterFuncs X G afs h')"

text \<open>
  \<^verbatim>\<open>parse\<close>: the configuration is a pointer to a struct with the fields \<open>fl\<close>, whose
  memory is \<open>h\<close>; the flag set is new. The result is the memory after resolution, or
  the error.
\<close>

definition parse ::
  "('f, 't) extern \<Rightarrow> pkgvars \<Rightarrow> (string \<times> string) list \<Rightarrow> StructField list \<Rightarrow> ('f, 't) heap
     \<Rightarrow> error + ('f, 't) heap" where
  "parse X G args fl h =
     (case execTags X G [] 0 fl (h, []) of
        Inl e \<Rightarrow> Inl e
      | Inr (st, afs) \<Rightarrow>
          (case fs_Parse X args st of
             Inl e \<Rightarrow> Inl (Errorf ''parsing flag-set'' e)
           | Inr st' \<Rightarrow> runAfterFuncs X G afs (fst st')))"

section \<open>Two-phase resolution\<close>

text \<open>
  \<^verbatim>\<open>RegisterFlags\<close> runs \<^verbatim>\<open>execTags\<close> on the caller's flag set and drops the deferred
  actions.
\<close>

definition RegisterFlags ::
  "('f, 't) extern \<Rightarrow> pkgvars \<Rightarrow> StructField list \<Rightarrow> ('f, 't) state \<Rightarrow> error + ('f, 't) state" where
  "RegisterFlags X G fl st =
     (case execTags X G [] 0 fl st of Inl e \<Rightarrow> Inl e | Inr (st', afs) \<Rightarrow> Inr st')"

text \<open>\<^verbatim>\<open>setFieldValue\<close> on the field at address \<open>a\<close>.\<close>

definition setFieldValue ::
  "('f, 't) extern \<Rightarrow> pkgvars \<Rightarrow> addr \<Rightarrow> gotype \<Rightarrow> string \<Rightarrow> ('f, 't) heap
     \<Rightarrow> error + ('f, 't) heap" where
  "setFieldValue X G a fieldType value h =
     (case fieldType of
        Duration \<Rightarrow>
          (case time_ParseDuration X value of
             Inl e \<Rightarrow> Inl e
           | Inr v \<Rightarrow> Inr (h(a := VDuration v)))
      | Time \<Rightarrow>
          (case strconv_ParseInt (IntSize X) value 64 of
             Inr ts \<Rightarrow> Inr (h(a := VTime (time_Unix X ts)))
           | Inl e \<Rightarrow>
               (case tryFormats X (timeParserFormats G) value of
                  Some t \<Rightarrow> Inr (h(a := VTime t))
                | None \<Rightarrow> Inl (ErrorValue ''unable to parse time'' value)))
      | String \<Rightarrow> Inr (h(a := VString value))
      | Bool \<Rightarrow> Inr (h(a := VBool (value = ''true'')))
      | IntT k \<Rightarrow>
          (case parseIntForType X value k of
             Inl e \<Rightarrow> Inl e
           | Inr v \<Rightarrow> Inr (h(a := VInt (wrapInt (intBits X k) v))))
      | UintT k \<Rightarrow>
          (case parseUintForType X value k of
             Inl e \<Rightarrow> Inl e
           | Inr v \<Rightarrow> Inr (h(a := VUint (wrapUint (uintBits X k) v))))
      | FloatT k \<Rightarrow>
          (case strconv_ParseFloat X value of
             Inl e \<Rightarrow> Inl e
           | Inr v \<Rightarrow> Inr (h(a := VFloat (toFloat X k v))))
      | _ \<Rightarrow> Inr h)"

text \<open>
  The body of the loop of \<^verbatim>\<open>applyEnvAndDefaults\<close> for a field that is not a nested
  struct. The function writes the caller's memory in place, so what it has written stays
  written when it returns an error: the result is the error, if any, with the state.
\<close>

definition applyEnvAndDefaults_leaf ::
  "('f, 't) extern \<Rightarrow> pkgvars \<Rightarrow> path \<Rightarrow> string \<Rightarrow> StructTag \<Rightarrow> gotype \<Rightarrow> ('f, 't) state
     \<Rightarrow> error option \<times> ('f, 't) state" where
  "applyEnvAndDefaults_leaf X G p name tag ty st =
     (let value = effectiveValue X G name tag;
          flagName = tag_flag tag;
          direct =
            (case setFieldValue X G (FieldAddr p) ty value (fst st) of
               Inl e \<Rightarrow> (Some (Errorf (''setting field '' @ name) e), st)
             | Inr h' \<Rightarrow> (None, (h', snd st)))
      in
      if flagName \<noteq> [] then
        (case strings_Split flagName '','' of
           [] \<Rightarrow> (Some (Panic ''index out of range''), st)
         | part0 # rest \<Rightarrow>
             (case fs_Lookup (snd st) part0 of
                Some flag \<Rightarrow>
                  if flag_Changed flag then (None, st)
                  else
                    (case flag_Value_Set X (flag_Type flag) (flag_ValueSet flag)
                            (fst st (flag_Target flag)) value of
                       Inl e \<Rightarrow> (Some (Errorf (''setting flag '' @ part0) e), st)
                     | Inr v \<Rightarrow>
                         (None,
                          ((fst st)(flag_Target flag := v),
                           map (\<lambda>g. if flag_Name g = part0 then g\<lparr>flag_ValueSet := True\<rparr> else g)
                             (snd st))))
              | None \<Rightarrow> direct))
      else direct)"

fun applyEnvAndDefaults ::
  "('f, 't) extern \<Rightarrow> pkgvars \<Rightarrow> path \<Rightarrow> nat \<Rightarrow> StructField list \<Rightarrow> ('f, 't) state
     \<Rightarrow> error option \<times> ('f, 't) state"
and applyEnvAndDefaults_field ::
  "('f, 't) extern \<Rightarrow> pkgvars \<Rightarrow> path \<Rightarrow> StructField \<Rightarrow> ('f, 't) state
     \<Rightarrow> error option \<times> ('f, 't) state" where
  "applyEnvAndDefaults X G pre i [] st = (None, st)"
| "applyEnvAndDefaults X G pre i (f # fl) st =
     (case applyEnvAndDefaults_field X G (pre @ [i]) f st of
        (Some e, st1) \<Rightarrow> (Some e, st1)
      | (None, st1) \<Rightarrow> applyEnvAndDefaults X G pre (Suc i) fl st1)"
| "applyEnvAndDefaults_field X G p (StructField name tag (Struct fl)) st =
     applyEnvAndDefaults X G p 0 fl st"
| "applyEnvAndDefaults_field X G p (StructField name tag ty) st =
     applyEnvAndDefaults_leaf X G p name tag ty st"

definition ApplyEnvAndDefaults ::
  "('f, 't) extern \<Rightarrow> pkgvars \<Rightarrow> StructField list \<Rightarrow> ('f, 't) state
     \<Rightarrow> error option \<times> ('f, 't) state" where
  "ApplyEnvAndDefaults X G fl st = applyEnvAndDefaults X G [] 0 fl st"

section \<open>Default sets from hierarchical documents\<close>

text \<open>
  What the document parser returns: scalars and mappings. A scalar is a string, an
  integer, a boolean, null, or a value of another kind (a float, a sequence, ...) that is
  not interpreted here (\<open>'a\<close>). \<open>YMapS\<close> is a \<^verbatim>\<open>map[string]interface{}\<close> and \<open>YMapI\<close> a
  \<^verbatim>\<open>map[interface{}]interface{}\<close>, whose keys are scalars. A Go map is listed in the
  order in which \<^verbatim>\<open>range\<close> happens to visit it.
\<close>

datatype 'a scalar = SString string | SInt int | SBool bool | SNull | SOther 'a

datatype 'a yaml =
    YScalar "'a scalar"
  | YMapS "(string \<times> 'a yaml) list"
  | YMapI "('a scalar \<times> 'a yaml) list"

text \<open>
  The collaborators of the document functions: the parser \<^verbatim>\<open>yaml.Unmarshal\<close> into a
  \<^verbatim>\<open>map[string]interface{}\<close>, \<^verbatim>\<open>os.ReadFile\<close>, and the text \<^verbatim>\<open>fmt.Sprintf("%v", x)\<close>
  of an uninterpreted scalar.
\<close>

record 'a docext =
  yaml_Unmarshal :: "string \<Rightarrow> error + (string \<times> 'a yaml) list"
  os_ReadFile :: "string \<Rightarrow> error + string"
  fmt_other :: "'a \<Rightarrow> string"

record YAMLOptions =
  KeyToLower :: bool

datatype YAMLOption = WithKeyToLower

definition applyOption :: "YAMLOptions \<Rightarrow> YAMLOption \<Rightarrow> YAMLOptions" where
  "applyOption options opt = (case opt of WithKeyToLower \<Rightarrow> options\<lparr>KeyToLower := True\<rparr>)"

function natDigits :: "nat \<Rightarrow> string" where
  "natDigits n =
     (if n < 10 then [''0123456789'' ! n] else natDigits (n div 10) @ [''0123456789'' ! (n mod 10)])"
  by pat_completeness auto
termination
  by (relation "measure id") auto

definition fmt_int :: "int \<Rightarrow> string" where
  "fmt_int i = (if i < 0 then CHR ''-'' # natDigits (nat (- i)) else natDigits (nat i))"

text \<open>\<^verbatim>\<open>fmt.Sprintf("%v", x)\<close> of a scalar.\<close>

definition fmt_v :: "'a docext \<Rightarrow> 'a scalar \<Rightarrow> string" where
  "fmt_v D x =
     (case x of
        SString s \<Rightarrow> s
      | SInt i \<Rightarrow> fmt_int i
      | SBool b \<Rightarrow> (if b then ''true'' else ''false'')
      | SNull \<Rightarrow> ''<nil>''
      | SOther y \<Rightarrow> fmt_other D y)"

text \<open>The assignment \<^verbatim>\<open>m[k] = v\<close> on a Go map given as a list of distinct keys.\<close>

fun mapInsert :: "'k \<Rightarrow> 'v \<Rightarrow> ('k \<times> 'v) list \<Rightarrow> ('k \<times> 'v) list" where
  "mapInsert k v [] = [(k, v)]"
| "mapInsert k v ((k', v') # m) =
     (if k' = k then (k, v) # m else (k', v') # mapInsert k v m)"

text \<open>The map \<^verbatim>\<open>m2\<close> that \<^verbatim>\<open>flattenYAMLMap\<close> builds from a map with scalar keys.\<close>

definition stringKeys :: "'a docext \<Rightarrow> ('a scalar \<times> 'a yaml) list \<Rightarrow> (string \<times> 'a yaml) list" where
  "stringKeys D val = foldl (\<lambda>m2 (mk, mv). mapInsert (fmt_v D mk) mv m2) [] val"

fun ysize :: "'a yaml \<Rightarrow> nat"
and msize :: "(string \<times> 'a yaml) list \<Rightarrow> nat"
and isize :: "('a scalar \<times> 'a yaml) list \<Rightarrow> nat" where
  "ysize (YScalar x) = 0"
| "ysize (YMapS m) = Suc (msize m)"
| "ysize (YMapI m) = Suc (isize m)"
| "msize [] = 0"
| "msize (kv # m) = Suc (ysize (snd kv) + msize m)"
| "isize [] = 0"
| "isize (kv # m) = Suc (ysize (snd kv) + isize m)"

text \<open>
  \<^verbatim>\<open>flattenYAMLMap(prefix, in, out, opts)\<close>: the entries of \<open>in\<close> are visited in turn,
  a nested mapping by the recursive call, which writes into the same \<open>out\<close>.
\<close>

function flattenYAMLMap ::
  "'a docext \<Rightarrow> YAMLOptions \<Rightarrow> string \<Rightarrow> (string \<times> 'a yaml) list \<Rightarrow> (string \<Rightarrow> string option)
     \<Rightarrow> (string \<Rightarrow> string option)" where
  "flattenYAMLMap D opts prefix [] out = out"
| "flattenYAMLMap D opts prefix ((k, v) # rest) out =
     (let key0 = (if KeyToLower opts then strings_ToLower k else k);
          key = (if prefix \<noteq> [] then prefix @ ''.'' @ key0 else key0)
      in flattenYAMLMap D opts prefix rest
           (case v of
              YMapS val \<Rightarrow> flattenYAMLMap D opts key val out
            | YMapI val \<Rightarrow> flattenYAMLMap D opts key (stringKeys D val) out
            | YScalar x \<Rightarrow> out(key \<mapsto> fmt_v D x)))"
  by pat_completeness auto
termination
proof (relation "measure (\<lambda>(D, opts, prefix, m, out). msize m)", goal_cases)
  case 1
  show ?case by simp
next
  case (2 D opts prefix k v rest out key0 key val)
  then show ?case by simp
next
  case (3 D opts prefix k v rest out key0 key val)
  have ins: "msize (mapInsert a b m) \<le> Suc (ysize b + msize m)" for a and b :: "'a yaml" and m
    by (induction m) auto
  have "msize (foldl (\<lambda>m2 (mk, mv). mapInsert (fmt_v D mk) mv m2) acc val) \<le> msize acc + isize val"
    for acc
  proof (induction val arbitrary: acc)
    case Nil
    then show ?case by simp
  next
    case (Cons kv val)
    obtain mk mv where kv: "kv = (mk, mv)" by (cases kv)
    have "msize (foldl (\<lambda>m2 (mk, mv). mapInsert (fmt_v D mk) mv m2) (mapInsert (fmt_v D mk) mv acc) val)
            \<le> msize (mapInsert (fmt_v D mk) mv acc) + isize val"
      by (rule Cons.IH)
    also have "\<dots> \<le> Suc (ysize mv + msize acc) + isize val"
      using ins [of "fmt_v D mk" mv acc] by simp
    finally show ?case by (simp add: kv)
  qed
  from this [of "[]"] have "msize (stringKeys D val) \<le> isize val"
    by (simp add: stringKeys_def)
  with 3 show ?case by simp
next
  case 4
  then show ?case by simp
qed

definition VarDefaultsFromYAML ::
  "'a docext \<Rightarrow> string \<Rightarrow> YAMLOption list \<Rightarrow> error + (string \<Rightarrow> string option)" where
  "VarDefaultsFromYAML D data opts =
     (let options = foldl applyOption \<lparr>KeyToLower = False\<rparr> opts in
      case yaml_Unmarshal D data of
        Inl e \<Rightarrow> Inl (Errorf ''parsing yaml'' e)
      | Inr raw \<Rightarrow> Inr (flattenYAMLMap D options [] raw Map.empty))"

definition VarDefaultsFromYAMLFile ::
  "'a docext \<Rightarrow> string \<Rightarrow> YAMLOption list \<Rightarrow> error + (string \<Rightarrow> string option)" where
  "VarDefaultsFromYAMLFile D filename opts =
     (case os_ReadFile D filename of
        Inl e \<Rightarrow> Inl (Errorf ''reading file'' e)
      | Inr data \<Rightarrow> VarDefaultsFromYAML D data opts)"

text \<open>
  The repository holds a second, older variant of the three functions, without options
  and without an error result; its names carry the prefix \<open>legacy\<close> here.
\<close>

function legacy_flattenYAMLMap ::
  "'a docext \<Rightarrow> string \<Rightarrow> (string \<times> 'a yaml) list \<Rightarrow> (string \<Rightarrow> string option)
     \<Rightarrow> (string \<Rightarrow> string option)" where
  "legacy_flattenYAMLMap D prefix [] out = out"
| "legacy_flattenYAMLMap D prefix ((k, v) # rest) out =
     (let key = (if prefix \<noteq> [] then prefix @ ''.'' @ k else k)
      in legacy_flattenYAMLMap D prefix rest
           (case v of
              YMapS val \<Rightarrow> legacy_flattenYAMLMap D key val out
            | YMapI val \<Rightarrow> legacy_flattenYAMLMap D key (stringKeys D val) out
            | YScalar x \<Rightarrow> out(key \<mapsto> fmt_v D x)))"
  by pat_completeness auto
termination
proof (relation "measure (\<lambda>(D, prefix, m, out). msize m)", goal_cases)
  case 1
  show ?case by simp
next
  case (2 D prefix k v rest out key val)
  then show ?case by simp
next
  case (3 D prefix k v rest out key val)
  have ins: "msize (mapInsert a b m) \<le> Suc (ysize b + msize m)" for a and b :: "'a yaml" and m
    by (induction m) auto
  have "msize (foldl (\<lambda>m2 (mk, mv). mapInsert (fmt_v D mk) mv m2) acc val) \<le> msize acc + isize val"
    for acc
  proof (induction val arbitrary: acc)
    case Nil
    then show ?case by simp
  next
    case (Cons kv val)
    obtain mk mv where kv: "kv = (mk, mv)" by (cases kv)
    have "msize (foldl (\<lambda>m2 (mk, mv). mapInsert (fmt_v D mk) mv m2) (mapInsert (fmt_v D mk) mv acc) val)
            \<le> msize (mapInsert (fmt_v D mk) mv acc) + isize val"
      by (rule Cons.IH)
    also have "\<dots> \<le> Suc (ysize mv + msize acc) + isize val"
      using ins [of "fmt_v D mk" mv acc] by simp
    finally show ?case by (simp add: kv)
  qed
  from this [of "[]"] have "msize (stringKeys D val) \<le> isize val"
    by (simp add: stringKeys_def)
  with 3 show ?case by simp
next
  case 4
  then show ?case by simp
qed

definition legacy_VarDefaultsFromYAML :: "'a docext \<Rightarrow> string \<Rightarrow> (string \<Rightarrow> string option)" where
  "legacy_VarDefaultsFromYAML D data =
     (case yaml_Unmarshal D data of
        Inl e \<Rightarrow> Map.empty
      | Inr raw \<Rightarrow> legacy_flattenYAMLMap D [] raw Map.empty)"

definition legacy_VarDefaultsFromYAMLFile :: "'a docext \<Rightarrow> string \<Rightarrow> (string \<Rightarrow> string option)" where
  "legacy_VarDefaultsFromYAMLFile D filename =
     (case os_ReadFile D filename of
        Inl e \<Rightarrow> Map.empty
      | Inr data \<Rightarrow> legacy_VarDefaultsFromYAML D data)"

text \<open>\<^verbatim>\<open>SetVariableDefaults\<close> replaces the registry as a whole.\<close>

definition SetVariableDefaults :: "(string \<Rightarrow> string option) \<Rightarrow> pkgvars \<Rightarrow> pkgvars" where
  "SetVariableDefaults defaults G = G\<lparr>variableDefaults := defaults\<rparr>"

section \<open>Package state and a test instance of the collaborators\<close>

text \<open>The package variables as the \<^verbatim>\<open>var\<close> block and \<^verbatim>\<open>init\<close> leave them.\<close>

definition initialPkgvars :: pkgvars where
  "initialPkgvars =
     \<lparr>autoEnv = False,
      variableDefaults = Map.empty,
      timeParserFormats =
        [''2006-01-02T15:04:05.999999999Z07:00'', ''2006-01-02T15:04:05Z07:00'',
         ''Mon, 02 Jan 2006 15:04:05 -0700'', ''Mon, 02 Jan 2006 15:04:05 MST'',
         ''02 Jan 06 15:04 -0700'', ''02 Jan 06 15:04 MST'',
         ''Monday, 02-Jan-06 15:04:05 MST'', ''Mon Jan 02 15:04:05 -0700 2006'',
         ''Mon Jan _2 15:04:05 MST 2006'', ''Mon Jan _2 15:04:05 2006'',
         ''2006-01-02 15:04:05.999999999 -0700 MST'',
         ''2006-01-02 15:04:05'', ''2006-01-02 15:04:05Z07:00'',
         ''01/02/2006 15:04:05'', ''01/02/2006 15:04:05Z07:00'',
         ''02.01.2006 15:04:05'', ''02.01.2006 15:04:05Z07:00'']\<rparr>"

definition AddTimeParserFormats :: "string list \<Rightarrow> pkgvars \<Rightarrow> pkgvars" where
  "AddTimeParserFormats f G = G\<lparr>timeParserFormats := timeParserFormats G @ f\<rparr>"

definition AutoEnv :: "bool \<Rightarrow> pkgvars \<Rightarrow> pkgvars" where
  "AutoEnv enable G = G\<lparr>autoEnv := enable\<rparr>"

text \<open>
  A small instance of the collaborators, on which the model is evaluated at concrete
  inputs. Floats and times are integers here (a time is its Unix second). The float parser
  knows the decimal integers, the duration parser the text \<^verbatim>\<open>0\<close>, the time parser one
  text in one layout, and the flag values booleans, decimal integers and comma-separated
  strings; each rejects every other text. No environment name is derived from a field name.
\<close>

definition testExtern :: "(string \<Rightarrow> string option) \<Rightarrow> (int, int) extern" where
  "testExtern env =
     \<lparr>IntSize = 64,
      os_LookupEnv = env,
      deriveEnvVarName = (\<lambda>name. []),
      strconv_ParseFloat = (\<lambda>s. strconv_ParseInt 64 s 64),
      float_zero = 0,
      float32 = (\<lambda>x. x),
      time_ParseDuration =
        (\<lambda>s. if s = ''0'' then Inr 0 else Inl (ErrExternal ''invalid duration'')),
      time_Parse =
        (\<lambda>layout s.
           if layout = ''2006-01-02 15:04:05'' \<and> s = ''2023-01-02 15:04:05''
           then Inr 1672671845 else Inl (ErrExternal ''cannot parse time'')),
      time_Unix = (\<lambda>ts. ts),
      pflag_Parse =
        (\<lambda>ty text.
           case ty of
             Bool \<Rightarrow>
               (if text = ''true'' then Inr (VBool True)
                else if text = ''false'' then Inr (VBool False)
                else Inl ErrSyntax)
           | IntT k \<Rightarrow>
               (case strconv_ParseInt 64 text 64 of
                  Inl e \<Rightarrow> Inl e
                | Inr v \<Rightarrow> Inr (VInt v))
           | SliceString \<Rightarrow> Inr (VStringSlice (strings_Split text '',''))
           | _ \<Rightarrow> Inl (ErrExternal ''unsupported flag type''))\<rparr>"

text \<open>A memory in which every variable holds the empty string.\<close>

definition exampleHeap :: "(int, int) heap" where
  "exampleHeap = (\<lambda>a. VString [])"

definition noTag :: StructTag where
  "noTag = \<lparr>tag_default = [], tag_vardefault = [], tag_env = [], tag_flag = [],
            tag_description = [], tag_delimiter = []\<rparr>"

text \<open>
  An instance of the collaborators of the document functions: a parser that knows four
  documents (the two nested mappings of the package's tests, a mapping whose top-level key
  is the empty string, and a mapping with the keys \<^verbatim>\<open>a.b\<close> and \<^verbatim>\<open>a\<close>), returns no
  entries for the empty input and rejects every other text, among them a bare sequence;
  and a file system with one file, which holds that sequence.
\<close>

definition emptyKeyDocument :: string where
  "emptyKeyDocument = [CHR 0x22, CHR 0x22] @ '': {a: 1}''"

definition exampleUnmarshal :: "string \<Rightarrow> error + (string \<times> unit yaml) list" where
  "exampleUnmarshal data =
     (if data = [] then Inr []
      else if data = ''{config: {rabbitmq: {port: 1234}}}'' then
        Inr [(''config'', YMapS [(''rabbitmq'', YMapS [(''port'', YScalar (SInt 1234))])])]
      else if data = ''{Config: {RabbitMQ: {Host: Test-Host}}}'' then
        Inr [(''Config'', YMapS [(''RabbitMQ'', YMapS [(''Host'', YScalar (SString ''Test-Host''))])])]
      else if data = emptyKeyDocument then
        Inr [([], YMapS [(''a'', YScalar (SInt 1))])]
      else if data = ''{a.b: 1, a: {b: 2}}'' then
        Inr [(''a.b'', YScalar (SInt 1)), (''a'', YMapS [(''b'', YScalar (SInt 2))])]
      else Inl (ErrExternal ''cannot unmarshal into map[string]interface {}''))"

definition exampleReadFile :: "string \<Rightarrow> error + string" where
  "exampleReadFile filename =
     (if filename = ''list.yaml'' then Inr ''[item1, item2]''
      else Inl (ErrExternal ''no such file or directory''))"

definition exampleDocext :: "unit docext" where
  "exampleDocext =
     \<lparr>yaml_Unmarshal = exampleUnmarshal, os_ReadFile = exampleReadFile, fmt_other = (\<lambda>u. [])\<rparr>"

section \<open>Notions used to state the properties\<close>







text \<open>
  The field below a field: \<open>subfieldAt f r\<close> follows the field indices \<open>r\<close> through
  nested structs, starting at \<open>f\<close>. The configuration struct itself is the field
  \<open>rootField fl\<close>, so that \<open>fieldAt fl p\<close> is the field at the path \<open>p\<close> of the
  configuration.
\<close>

fun subfieldAt :: "StructField \<Rightarrow> path \<Rightarrow> StructField option" where
  "subfieldAt f [] = Some f"
| "subfieldAt f (j # r) =
     (case Type f of
        Struct fl \<Rightarrow> (if j < length fl then subfieldAt (fl ! j) r else None)
      | _ \<Rightarrow> None)"

definition isStruct :: "gotype \<Rightarrow> bool" where
  "isStruct ty = (case ty of Struct fl \<Rightarrow> True | _ \<Rightarrow> False)"

definition rootField :: "StructField list \<Rightarrow> StructField" where
  "rootField fl = StructField [] noTag (Struct fl)"

definition fieldAt :: "StructField list \<Rightarrow> path \<Rightarrow> StructField option" where
  "fieldAt fl p = subfieldAt (rootField fl) p"

text \<open>The path of the field that a variable belongs to.\<close>

definition addrPath :: "addr \<Rightarrow> path option" where
  "addrPath a = (case a of FieldAddr p \<Rightarrow> Some p | SVarAddr p \<Rightarrow> Some p | ExternAddr n \<Rightarrow> None)"

text \<open>
  The name under which a field's flag is registered and looked up: the first
  comma-separated part of its \<^verbatim>\<open>flag\<close> tag.
\<close>

definition flagName :: "StructTag \<Rightarrow> string" where
  "flagName tag = (case strings_Split (tag_flag tag) '','' of [] \<Rightarrow> [] | part0 # rest \<Rightarrow> part0)"

text \<open>The texts that the command line supplies for a flag, in order.\<close>

definition supplied :: "string \<Rightarrow> (string \<times> string) list \<Rightarrow> string list" where
  "supplied name args = map snd (filter (\<lambda>a. fst a = name) args)"

text \<open>The value of a flag's variable after the given texts were set one after the other.\<close>

fun setTexts ::
  "('f, 't) extern \<Rightarrow> gotype \<Rightarrow> bool \<Rightarrow> ('f, 't) val \<Rightarrow> string list \<Rightarrow> error + ('f, 't) val" where
  "setTexts X ty wasSet cur [] = Inr cur"
| "setTexts X ty wasSet cur (t # ts) =
     (case flag_Value_Set X ty wasSet cur t of
        Inl e \<Rightarrow> Inl e
      | Inr v \<Rightarrow> setTexts X ty True v ts)"

text \<open>A path lies below the path \<open>q\<close> when it starts with \<open>q\<close>.\<close>

definition below :: "path \<Rightarrow> path \<Rightarrow> bool" where
  "below q p = (take (length q) p = q)"

text \<open>
  The time that a text stands for: the Unix second it denotes in base 10 or, failing that,
  what the first of the accepted formats that parses it yields.
\<close>

definition timeOf :: "('f, 't) extern \<Rightarrow> pkgvars \<Rightarrow> string \<Rightarrow> 't option" where
  "timeOf X G s =
     (case strconv_ParseInt (IntSize X) s 64 of
        Inr ts \<Rightarrow> Some (time_Unix X ts)
      | Inl e \<Rightarrow> tryFormats X (timeParserFormats G) s)"

text \<open>
  The types whose fields \<^verbatim>\<open>execTags\<close> gives a value computed from the effective text,
  and that value: the coercion of the text for a field with the given tag and type, as
  the cases of \<^verbatim>\<open>execTags\<close> compute it before they bind a flag or store the value.
\<close>

definition bindable :: "gotype \<Rightarrow> bool" where
  "bindable ty =
     (case ty of
        String \<Rightarrow> True | Bool \<Rightarrow> True | IntT k \<Rightarrow> True | UintT k \<Rightarrow> True | FloatT k \<Rightarrow> True
      | Duration \<Rightarrow> True | SliceInt \<Rightarrow> True | SliceString \<Rightarrow> True | _ \<Rightarrow> False)"

definition coerce ::
  "('f, 't) extern \<Rightarrow> StructTag \<Rightarrow> gotype \<Rightarrow> string \<Rightarrow> error + ('f, 't) val" where
  "coerce X tag ty value =
     (case ty of
        Duration \<Rightarrow>
          (case time_ParseDuration X value of
             Inl e \<Rightarrow> if value \<noteq> [] then Inl (Errorf ''parsing time.Duration'' e) else Inr (VDuration 0)
           | Inr v \<Rightarrow> Inr (VDuration v))
      | String \<Rightarrow> Inr (VString value)
      | Bool \<Rightarrow> Inr (VBool (value = ''true''))
      | IntT k \<Rightarrow>
          (case parseIntForType X value k of
             Inl e \<Rightarrow> if value \<noteq> [] then Inl (Errorf ''parsing int'' e) else Inr (VInt 0)
           | Inr vt \<Rightarrow> Inr (VInt (wrapInt (intBits X k) vt)))
      | UintT k \<Rightarrow>
          (case parseUintForType X value k of
             Inl e \<Rightarrow> if value \<noteq> [] then Inl (Errorf ''parsing uint'' e) else Inr (VUint 0)
           | Inr vt \<Rightarrow> Inr (VUint (wrapUint (uintBits X k) vt)))
      | FloatT k \<Rightarrow>
          (case strconv_ParseFloat X value of
             Inl e \<Rightarrow>
               if value \<noteq> [] then Inl (Errorf ''parsing float'' e)
               else Inr (VFloat (toFloat X k (float_zero X)))
           | Inr vt \<Rightarrow> Inr (VFloat (toFloat X k vt)))
      | SliceInt \<Rightarrow>
          (case parseIntSlice X (strings_Split value '','') of
             Inl e \<Rightarrow> Inl (Errorf ''parsing int'' e)
           | Inr def \<Rightarrow> Inr (VIntSlice def))
      | SliceString \<Rightarrow>
          Inr (VStringSlice
                 (if value \<noteq> []
                  then strings_Split value (if tag_delimiter tag = [] then '','' else tag_delimiter tag)
                  else []))
      | _ \<Rightarrow> Inl (ErrExternal ''no value''))"

text \<open>Whether \<^verbatim>\<open>execTags\<close> binds a flag to a field of the given tag and type.\<close>

definition registers :: "StructTag \<Rightarrow> gotype \<Rightarrow> bool" where
  "registers tag ty = (isSlice ty \<or> tag_flag tag \<noteq> [])"

text \<open>\<^verbatim>\<open>strings.Join(elems, sep)\<close>, the inverse of splitting.\<close>

fun strings_Join :: "string list \<Rightarrow> string \<Rightarrow> string" where
  "strings_Join [] sep = []"
| "strings_Join [x] sep = x"
| "strings_Join (x # y # ys) sep = x @ sep @ strings_Join (y # ys) sep"



section \<open>Notions used in the proofs about the walk\<close>

text \<open>
  The paths that \<^verbatim>\<open>execTags\<close> visits when it walks \<open>n\<close> fields of the struct at \<open>pre\<close>
  from field number \<open>i\<close> on.
\<close>

definition inreg :: "path \<Rightarrow> nat \<Rightarrow> nat \<Rightarrow> path \<Rightarrow> bool" where
  "inreg pre i n p =
     (below pre p \<and> length pre < length p \<and> i \<le> p ! length pre \<and> p ! length pre < i + n)"

text \<open>
  A step from the state \<open>st\<close> to the state \<open>st'\<close> with the deferred actions \<open>afs\<close>
  stays within the paths \<open>R\<close>: it writes only variables of such paths, it only adds flags,
  bound to variables of such paths, and its deferred actions are for such paths.
\<close>

definition frames ::
  "(path \<Rightarrow> bool) \<Rightarrow> ('f, 't) state \<Rightarrow> ('f, 't) state \<Rightarrow> afterFunc list \<Rightarrow> bool" where
  "frames R st st' afs =
     ((\<forall>a. (\<forall>p. addrPath a = Some p \<longrightarrow> \<not> R p) \<longrightarrow> fst st' a = fst st a)
      \<and> (\<exists>new. snd st' = snd st @ new
            \<and> (\<forall>g\<in>set new. \<exists>p. addrPath (flag_Target g) = Some p \<and> R p))
      \<and> (\<forall>p. TimeAfter p \<in> set afs \<longrightarrow> R p))"

text \<open>
  Within a walk from \<open>st\<close> to \<open>st'\<close>, the field \<open>lf\<close> at the path \<open>p\<close> was processed:
  its loop body ran in some intermediate state, no other step touched the variables of the
  path \<open>p\<close>, bound a flag to them, or deferred an action for it.
\<close>

definition ranLeaf ::
  "('f, 't) extern \<Rightarrow> pkgvars \<Rightarrow> path \<Rightarrow> StructField \<Rightarrow> ('f, 't) state \<Rightarrow> ('f, 't) state
     \<Rightarrow> afterFunc list \<Rightarrow> bool" where
  "ranLeaf X G p lf st st' afs =
     (\<exists>h1 fs1 h2 fs2 afs1 before after.
        execTags_leaf X G p (Name lf) (Tag lf) (Type lf) (h1, fs1) = Inr ((h2, fs2), afs1)
        \<and> (\<forall>a. addrPath a = Some p \<longrightarrow> h1 a = fst st a \<and> fst st' a = h2 a)
        \<and> fs1 = snd st @ before
        \<and> snd st' = fs2 @ after
        \<and> (\<forall>g\<in>set (before @ after). addrPath (flag_Target g) \<noteq> Some p)
        \<and> (TimeAfter p \<in> set afs \<longleftrightarrow> TimeAfter p \<in> set afs1))"

text \<open>
  In the flag set \<open>fs\<close> the name \<open>n\<close> is that of a flag bound to the variable \<open>a\<close>
  of type \<open>ty\<close>, and no flag of another name is bound to \<open>a\<close>.
\<close>

definition boundTo :: "FlagSet \<Rightarrow> string \<Rightarrow> addr \<Rightarrow> gotype \<Rightarrow> bool \<Rightarrow> bool" where
  "boundTo fs n a ty wasSet =
     ((\<exists>g. fs_Lookup fs n = Some g \<and> flag_Target g = a \<and> flag_Type g = ty
            \<and> flag_ValueSet g = wasSet)
      \<and> (\<forall>g\<in>set fs. flag_Target g = a \<longrightarrow> flag_Name g = n))"

text \<open>The types for which \<^verbatim>\<open>setFieldValue\<close> stores a value.\<close>

definition settable :: "gotype \<Rightarrow> bool" where
  "settable ty =
     (case ty of
        Duration \<Rightarrow> True | Time \<Rightarrow> True | String \<Rightarrow> True | Bool \<Rightarrow> True | IntT k \<Rightarrow> True
      | UintT k \<Rightarrow> True | FloatT k \<Rightarrow> True | _ \<Rightarrow> False)"

text \<open>
  The variable \<open>a\<close> is one that \<^verbatim>\<open>applyEnvAndDefaults\<close> may write when it processes the
  field of the given tag and type at the path \<open>q\<close> with the flag set \<open>fs\<close>: the variable
  of the field's flag, if the flag exists and was not changed by the user, or the field
  itself, if it has no flag in the set and is of a type that \<^verbatim>\<open>setFieldValue\<close> stores.
\<close>

definition mayWrite :: "FlagSet \<Rightarrow> addr \<Rightarrow> path \<Rightarrow> StructTag \<Rightarrow> gotype \<Rightarrow> bool" where
  "mayWrite fs a q tag ty =
     (if tag_flag tag \<noteq> [] then
        (case fs_Lookup fs (flagName tag) of
           Some g \<Rightarrow> \<not> flag_Changed g \<and> flag_Target g = a
         | None \<Rightarrow> settable ty \<and> a = FieldAddr q)
      else settable ty \<and> a = FieldAddr q)"

text \<open>Two flag sets that differ at most in which value objects were set.\<close>

definition sameFlags :: "FlagSet \<Rightarrow> FlagSet \<Rightarrow> bool" where
  "sameFlags fs fs' =
     (map (\<lambda>g. g\<lparr>flag_ValueSet := False\<rparr>) fs = map (\<lambda>g. g\<lparr>flag_ValueSet := False\<rparr>) fs')"

text \<open>
  Every flag of \<open>fs\<close> is bound to a variable of a field of the configuration struct
  \<open>fl\<close> that \<^verbatim>\<open>execTags\<close> binds to a flag, under the name that this field gives it.
\<close>

definition registeredOn :: "StructField list \<Rightarrow> FlagSet \<Rightarrow> bool" where
  "registeredOn fl fs =
     (\<forall>g\<in>set fs. \<exists>q name tag ty.
        addrPath (flag_Target g) = Some q \<and> fieldAt fl q = Some (StructField name tag ty)
        \<and> \<not> isStruct ty \<and> flagName tag = flag_Name g \<and> registers tag ty)"

text \<open>
  The flags that \<^verbatim>\<open>execTags\<close> adds while it walks the fields of \<open>f\<close> at the path \<open>q\<close>
  come from the fields below \<open>f\<close>.
\<close>

definition flagFrom :: "path \<Rightarrow> StructField \<Rightarrow> Flag \<Rightarrow> bool" where
  "flagFrom q f g =
     (\<exists>r name tag ty.
        subfieldAt f r = Some (StructField name tag ty) \<and> \<not> isStruct ty
        \<and> addrPath (flag_Target g) = Some (q @ r)
        \<and> flagName tag = flag_Name g \<and> registers tag ty)"

section \<open>The environment tier\<close>

text \<open>
  Claim C6. For a field with an environment variable name (the \<^verbatim>\<open>env\<close> tag or, with
  automatic naming, the name derived from the field's name), the effective textual value
  is the variable's value whenever the variable is set in the process environment, also
  when it is set to the empty string, whatever the registry and the static default say;
  when the variable is unset, it is the value of the lower tiers, unchanged.
\<close>

theorem envDefault_set_overrides_unset_keeps:
  assumes "envName X G name tag \<noteq> []"
  shows "effectiveValue X G name tag =
           (case os_LookupEnv X (envName X G name tag) of
              Some e \<Rightarrow> e
            | None \<Rightarrow> varDefault G (tag_vardefault tag) (tag_default tag))"
  using assms by (simp add: effectiveValue_def envDefault_def Let_def split: option.splits)

theorem envDefault_set_overrides_unset_keeps_witness:
  "envName (testExtern [''FOO'' \<mapsto> '''']) initialPkgvars ''MySecretValue''
      (noTag\<lparr>tag_default := ''secret'', tag_env := ''FOO''\<rparr>) \<noteq> []
   \<and> effectiveValue (testExtern [''FOO'' \<mapsto> '''']) initialPkgvars ''MySecretValue''
      (noTag\<lparr>tag_default := ''secret'', tag_env := ''FOO''\<rparr>) = ''''
   \<and> effectiveValue (testExtern Map.empty) initialPkgvars ''MySecretValue''
      (noTag\<lparr>tag_default := ''secret'', tag_env := ''FOO''\<rparr>) = ''secret''"
  using envDefault_set_overrides_unset_keeps
          [of "testExtern [''FOO'' \<mapsto> '''']" initialPkgvars "''MySecretValue''"
              "noTag\<lparr>tag_default := ''secret'', tag_env := ''FOO''\<rparr>"]
        envDefault_set_overrides_unset_keeps
          [of "testExtern Map.empty" initialPkgvars "''MySecretValue''"
              "noTag\<lparr>tag_default := ''secret'', tag_env := ''FOO''\<rparr>"]
  by (simp add: envName_def testExtern_def noTag_def varDefault_def)

section \<open>Evaluation lemmas\<close>

lemma tryFormats_None:
  "(\<forall>layout\<in>set fmts. \<exists>e. time_Parse X layout s = Inl e) \<Longrightarrow> tryFormats X fmts s = None"
  by (induction fmts) auto

lemma strconv_ParseInt_empty: "strconv_ParseInt n [] bits = Inl ErrSyntax"
  by (simp add: strconv_ParseInt_def)

lemma strconv_ParseUint_empty: "strconv_ParseUint n [] bits = Inl ErrSyntax"
  by (simp add: strconv_ParseUint_def)

lemma strings_Split_empty_text: "sep \<noteq> [] \<Longrightarrow> strings_Split [] sep = [[]]"
  by (simp add: strings_Split_def)

section \<open>The inert-field rule\<close>

text \<open>
  Claim C5 says that a field whose only metadata attribute is \<^verbatim>\<open>vardefault\<close> is
  processed and receives the registry value of its key. In the code the test for an inert
  field reads the attributes \<^verbatim>\<open>default\<close>, \<^verbatim>\<open>env\<close> and \<^verbatim>\<open>flag\<close> only: with the registry
  holding the value \<^verbatim>\<open>v\<close> under the key \<^verbatim>\<open>k\<close>, single-pass resolution of a struct whose
  one string field carries \<^verbatim>\<open>vardefault:"k"\<close> and nothing else leaves the memory as it
  was, whereas the same field with a \<^verbatim>\<open>default\<close> attribute added receives \<^verbatim>\<open>v\<close>.
\<close>

theorem parse_skips_vardefault_only_field:
  "parse X (SetVariableDefaults [''k'' \<mapsto> ''v''] (AutoEnv False G)) []
      [StructField ''X'' (noTag\<lparr>tag_vardefault := ''k''\<rparr>) String] h = Inr h
   \<and> parse X (SetVariableDefaults [''k'' \<mapsto> ''v''] (AutoEnv False G)) []
      [StructField ''X'' (noTag\<lparr>tag_vardefault := ''k'', tag_default := ''d''\<rparr>) String] h
     = Inr (h(FieldAddr [0] := VString ''v''))"
  by (simp add: parse_def execTags_leaf_def inert_def kindStruct_def noTag_def
      SetVariableDefaults_def AutoEnv_def effectiveValue_def envDefault_def envName_def
      varDefault_def bindOrSet_def withAfter_def)

section \<open>Empty values in the two-phase direct write\<close>

text \<open>
  Claim C2 says that an empty effective value yields zero without an error in both paths
  that write a field directly. For a \<^verbatim>\<open>time.Duration\<close> field with the attribute
  \<^verbatim>\<open>env:"TIMEOUT"\<close> and for an \<^verbatim>\<open>int\<close> field with the attribute \<^verbatim>\<open>env:"PORT"\<close>, the
  variables unset and the duration parser rejecting the empty text, single-pass
  resolution stores 0, while \<^verbatim>\<open>ApplyEnvAndDefaults\<close> on an empty flag set returns the
  parse error of \<^verbatim>\<open>setFieldValue\<close>, wrapped, and writes nothing.
\<close>

theorem ApplyEnvAndDefaults_empty_value_fails:
  assumes "os_LookupEnv X ''TIMEOUT'' = None" "os_LookupEnv X ''PORT'' = None"
    and "time_ParseDuration X [] = Inl e"
  shows "parse X G [] [StructField ''Timeout'' (noTag\<lparr>tag_env := ''TIMEOUT''\<rparr>) Duration] h
     = Inr (h(FieldAddr [0] := VDuration 0))
   \<and> ApplyEnvAndDefaults X G
      [StructField ''Timeout'' (noTag\<lparr>tag_env := ''TIMEOUT''\<rparr>) Duration] (h, [])
     = (Some (Errorf ''setting field Timeout'' e), (h, []))
   \<and> parse X G [] [StructField ''Port'' (noTag\<lparr>tag_env := ''PORT''\<rparr>) (IntT KInt)] h
     = Inr (h(FieldAddr [0] := VInt 0))
   \<and> ApplyEnvAndDefaults X G
      [StructField ''Port'' (noTag\<lparr>tag_env := ''PORT''\<rparr>) (IntT KInt)] (h, [])
     = (Some (Errorf ''setting field Port'' ErrSyntax), (h, []))"
  using assms
  by (simp add: parse_def execTags_leaf_def inert_def kindStruct_def noTag_def
      effectiveValue_def envDefault_def envName_def varDefault_def bindOrSet_def withAfter_def
      parseIntForType_def strconv_ParseInt_empty
      ApplyEnvAndDefaults_def applyEnvAndDefaults_leaf_def setFieldValue_def)

theorem ApplyEnvAndDefaults_empty_value_fails_witness:
  "parse (testExtern Map.empty) initialPkgvars []
      [StructField ''Timeout'' (noTag\<lparr>tag_env := ''TIMEOUT''\<rparr>) Duration] exampleHeap
     = Inr (exampleHeap(FieldAddr [0] := VDuration 0))
   \<and> ApplyEnvAndDefaults (testExtern Map.empty) initialPkgvars
      [StructField ''Timeout'' (noTag\<lparr>tag_env := ''TIMEOUT''\<rparr>) Duration] (exampleHeap, [])
     = (Some (Errorf ''setting field Timeout'' (ErrExternal ''invalid duration'')), (exampleHeap, []))
   \<and> parse (testExtern Map.empty) initialPkgvars []
      [StructField ''Port'' (noTag\<lparr>tag_env := ''PORT''\<rparr>) (IntT KInt)] exampleHeap
     = Inr (exampleHeap(FieldAddr [0] := VInt 0))
   \<and> ApplyEnvAndDefaults (testExtern Map.empty) initialPkgvars
      [StructField ''Port'' (noTag\<lparr>tag_env := ''PORT''\<rparr>) (IntT KInt)] (exampleHeap, [])
     = (Some (Errorf ''setting field Port'' ErrSyntax), (exampleHeap, []))"
proof -
  have a: "os_LookupEnv (testExtern Map.empty) ''TIMEOUT'' = None"
    "os_LookupEnv (testExtern Map.empty) ''PORT'' = None"
    by (simp_all add: testExtern_def)
  have b: "time_ParseDuration (testExtern Map.empty) [] = Inl (ErrExternal ''invalid duration'')"
    by (simp add: testExtern_def)
  show ?thesis
    by (rule ApplyEnvAndDefaults_empty_value_fails [OF a b])
qed

text \<open>
  Claim C3 says that an empty textual value succeeds trivially, leaving the field at its
  zero value, in both paths. For a \<^verbatim>\<open>time.Time\<close> field without attributes, and accepted
  formats none of which parses the empty text, the deferred action of single-pass
  resolution leaves the field untouched, while \<^verbatim>\<open>ApplyEnvAndDefaults\<close> on an empty flag
  set returns the error \<^verbatim>\<open>unable to parse time\<close> of \<^verbatim>\<open>setFieldValue\<close>.
\<close>

theorem ApplyEnvAndDefaults_empty_time_fails:
  assumes "\<not> autoEnv G"
    and "\<forall>layout\<in>set (timeParserFormats G). \<exists>e. time_Parse X layout [] = Inl e"
  shows "parse X G [] [StructField ''Start'' noTag Time] h = Inr (h(SVarAddr [0] := VString []))
   \<and> ApplyEnvAndDefaults X G [StructField ''Start'' noTag Time] (h, [])
     = (Some (Errorf ''setting field Start'' (ErrorValue ''unable to parse time'' [])), (h, []))"
  using assms
  by (simp add: parse_def execTags_leaf_def inert_def kindStruct_def noTag_def
      effectiveValue_def envDefault_def envName_def varDefault_def bindOrSet_def withAfter_def
      timeAfterFunc_def the_string_def strconv_ParseInt_empty tryFormats_None
      ApplyEnvAndDefaults_def applyEnvAndDefaults_leaf_def setFieldValue_def)

theorem ApplyEnvAndDefaults_empty_time_fails_witness:
  "parse (testExtern Map.empty) initialPkgvars [] [StructField ''Start'' noTag Time] exampleHeap
       = Inr (exampleHeap(SVarAddr [0] := VString []))
   \<and> ApplyEnvAndDefaults (testExtern Map.empty) initialPkgvars [StructField ''Start'' noTag Time]
        (exampleHeap, [])
       = (Some (Errorf ''setting field Start'' (ErrorValue ''unable to parse time'' [])),
          (exampleHeap, []))"
proof -
  have a: "\<not> autoEnv initialPkgvars"
    by (simp add: initialPkgvars_def)
  have b: "\<forall>layout\<in>set (timeParserFormats initialPkgvars).
         \<exists>e. time_Parse (testExtern Map.empty) layout [] = Inl e"
    by (simp add: testExtern_def)
  show ?thesis
    using ApplyEnvAndDefaults_empty_time_fails [OF a b, of exampleHeap] by blast
qed

section \<open>Errors of the document conversion\<close>

text \<open>
  Claim C9, as amended. The variant of the conversion functions that takes options
  returns an explicit error when the document parser rejects the bytes (malformed input,
  or a root that is not a mapping), and the file variant when the file cannot be read;
  the older variant without options returns an empty map and no error in these cases.
\<close>

theorem VarDefaultsFromYAML_error_policy:
  "(yaml_Unmarshal D data = Inl e \<longrightarrow>
      VarDefaultsFromYAML D data opts = Inl (Errorf ''parsing yaml'' e)
      \<and> legacy_VarDefaultsFromYAML D data = Map.empty)
   \<and> (os_ReadFile D filename = Inl e' \<longrightarrow>
      VarDefaultsFromYAMLFile D filename opts = Inl (Errorf ''reading file'' e')
      \<and> legacy_VarDefaultsFromYAMLFile D filename = Map.empty)
   \<and> (os_ReadFile D filename = Inr data \<longrightarrow> yaml_Unmarshal D data = Inl e \<longrightarrow>
      VarDefaultsFromYAMLFile D filename opts = Inl (Errorf ''parsing yaml'' e)
      \<and> legacy_VarDefaultsFromYAMLFile D filename = Map.empty)"
  by (simp add: VarDefaultsFromYAML_def VarDefaultsFromYAMLFile_def
      legacy_VarDefaultsFromYAML_def legacy_VarDefaultsFromYAMLFile_def)

theorem VarDefaultsFromYAML_error_policy_witness:
  "yaml_Unmarshal exampleDocext ''[item1, item2]''
      = Inl (ErrExternal ''cannot unmarshal into map[string]interface {}'')
   \<and> VarDefaultsFromYAML exampleDocext ''[item1, item2]'' []
      = Inl (Errorf ''parsing yaml'' (ErrExternal ''cannot unmarshal into map[string]interface {}''))
   \<and> legacy_VarDefaultsFromYAML exampleDocext ''[item1, item2]'' = Map.empty
   \<and> os_ReadFile exampleDocext ''missing.yaml'' = Inl (ErrExternal ''no such file or directory'')
   \<and> VarDefaultsFromYAMLFile exampleDocext ''missing.yaml'' []
      = Inl (Errorf ''reading file'' (ErrExternal ''no such file or directory''))
   \<and> legacy_VarDefaultsFromYAMLFile exampleDocext ''missing.yaml'' = Map.empty
   \<and> os_ReadFile exampleDocext ''list.yaml'' = Inr ''[item1, item2]''
   \<and> VarDefaultsFromYAMLFile exampleDocext ''list.yaml'' []
      = Inl (Errorf ''parsing yaml'' (ErrExternal ''cannot unmarshal into map[string]interface {}''))
   \<and> legacy_VarDefaultsFromYAMLFile exampleDocext ''list.yaml'' = Map.empty"
proof -
  have u: "yaml_Unmarshal exampleDocext ''[item1, item2]''
      = Inl (ErrExternal ''cannot unmarshal into map[string]interface {}'')"
    by (simp add: exampleDocext_def exampleUnmarshal_def emptyKeyDocument_def)
  have r1: "os_ReadFile exampleDocext ''missing.yaml'' = Inl (ErrExternal ''no such file or directory'')"
    by (simp add: exampleDocext_def exampleReadFile_def)
  have r2: "os_ReadFile exampleDocext ''list.yaml'' = Inr ''[item1, item2]''"
    by (simp add: exampleDocext_def exampleReadFile_def)
  show ?thesis
    using u r1 r2
      VarDefaultsFromYAML_error_policy
        [of exampleDocext "''[item1, item2]''"
           "ErrExternal ''cannot unmarshal into map[string]interface {}''" "[]"
           "''missing.yaml''" "ErrExternal ''no such file or directory''"]
      VarDefaultsFromYAML_error_policy
        [of exampleDocext "''[item1, item2]''"
           "ErrExternal ''cannot unmarshal into map[string]interface {}''" "[]"
           "''list.yaml''" "ErrExternal ''no such file or directory''"]
    by simp
qed

text \<open>
  The claim as stated fails on the older variant: on the rejected document and on the
  missing file it returns the empty map, not an error.
\<close>

theorem legacy_VarDefaultsFromYAML_swallows_errors:
  "yaml_Unmarshal exampleDocext ''[item1, item2]''
      = Inl (ErrExternal ''cannot unmarshal into map[string]interface {}'')
   \<and> legacy_VarDefaultsFromYAML exampleDocext ''[item1, item2]'' = Map.empty
   \<and> os_ReadFile exampleDocext ''missing.yaml'' = Inl (ErrExternal ''no such file or directory'')
   \<and> legacy_VarDefaultsFromYAMLFile exampleDocext ''missing.yaml'' = Map.empty"
  by (simp add: exampleDocext_def exampleUnmarshal_def exampleReadFile_def emptyKeyDocument_def
      legacy_VarDefaultsFromYAML_def legacy_VarDefaultsFromYAMLFile_def)

section \<open>Key flattening\<close>
















section \<open>The walk of \<^verbatim>\<open>execTags\<close>\<close>

lemma execTags_field_leaf:
  "\<not> isStruct ty \<Longrightarrow>
     execTags_field X G p (StructField name tag ty) st = execTags_leaf X G p name tag ty st"
  by (cases ty) (simp_all add: isStruct_def)

lemma fs_Var_result:
  assumes "fs_Var a ty parts v st = Inr st'"
  shows "\<exists>name rest g. parts = name # rest \<and> fst st' = (fst st)(a := v) \<and> snd st' = snd st @ [g]
           \<and> flag_Name g = name \<and> flag_Target g = a \<and> flag_Type g = ty
           \<and> \<not> flag_Changed g \<and> \<not> flag_ValueSet g \<and> fs_Lookup (snd st) name = None"
  using assms
  by (cases parts) (auto simp: fs_Var_def fs_AddFlag_def split: if_splits sum.splits)

lemma bindOrSet_result:
  assumes "bindOrSet tag a ty parts v st = Inr st'"
  shows "fst st' = (fst st)(a := v) \<and>
     (if tag_flag tag \<noteq> []
      then \<exists>name rest g. parts = name # rest \<and> snd st' = snd st @ [g]
           \<and> flag_Name g = name \<and> flag_Target g = a \<and> flag_Type g = ty
           \<and> \<not> flag_Changed g \<and> \<not> flag_ValueSet g \<and> fs_Lookup (snd st) name = None
      else snd st' = snd st)"
  using assms fs_Var_result [of a ty parts v st st']
  by (auto simp: bindOrSet_def split: if_splits)

lemma frames_refl: "frames R st st []"
  by (simp add: frames_def)

lemma frames_mono: "frames R st st' afs \<Longrightarrow> (\<And>p. R p \<Longrightarrow> R' p) \<Longrightarrow> frames R' st st' afs"
  unfolding frames_def by (elim conjE exE, intro conjI) blast+

lemma frames_trans:
  "frames R st st1 afs1 \<Longrightarrow> frames R st1 st2 afs2 \<Longrightarrow> frames R st st2 (afs1 @ afs2)"
  unfolding frames_def
  apply (elim conjE exE)
  apply (intro conjI)
    apply simp
   apply (rename_tac new1 new2)
   apply (rule_tac x = "new1 @ new2" in exI)
   apply auto
  done

lemma frames_write:
  "addrPath a = Some p \<Longrightarrow> R p \<Longrightarrow> frames R st ((fst st)(a := v), snd st) []"
  by (auto simp: frames_def)

lemma frames_bind:
  assumes "bindOrSet tag a ty parts v st = Inr st'" "addrPath a = Some p" "R p"
  shows "frames R st st' []"
  using bindOrSet_result [OF assms(1)] assms(2,3)
  by (cases "tag_flag tag = []") (auto simp: frames_def)

lemma frames_var:
  assumes "fs_Var a ty parts v st = Inr st'" "addrPath a = Some p" "R p"
  shows "frames R st st' []"
  using fs_Var_result [OF assms(1)] assms(2,3)
  by (auto simp: frames_def)

lemma frames_time:
  "frames R st st' [] \<Longrightarrow> R p \<Longrightarrow> frames R st st' [TimeAfter p]"
  by (auto simp: frames_def)

lemma withAfter_Inr:
  "withAfter afs r = Inr (st', afs') \<longleftrightarrow> r = Inr st' \<and> afs' = afs"
  by (cases r) (auto simp: withAfter_def)

lemma execTags_leaf_frames:
  assumes "execTags_leaf X G p name tag ty st = Inr (st', afs)" "R p"
  shows "frames R st st' afs"
proof (cases "inert tag ty")
  case True
  with assms show ?thesis by (simp add: execTags_leaf_def frames_refl)
next
  case False
  have fa: "addrPath (FieldAddr p) = Some p" and sa: "addrPath (SVarAddr p) = Some p"
    by (simp_all add: addrPath_def)
  have b1: "frames R st s' []" if "bindOrSet tag (FieldAddr p) ty' parts v st = Inr s'"
    for ty' parts v s'
    using frames_bind [where R = R, OF that fa] assms(2) by simp
  have b2: "frames R st s' []" if "bindOrSet tag (SVarAddr p) ty' parts v st = Inr s'"
    for ty' parts v s'
    using frames_bind [where R = R, OF that sa] assms(2) by simp
  have b3: "frames R st s' []" if "fs_Var (FieldAddr p) ty' parts v st = Inr s'"
    for ty' parts v s'
    using frames_var [where R = R, OF that fa] assms(2) by simp
  have b4: "frames R st s' [TimeAfter p]" if "frames R st s' []" for s'
    using frames_time [where R = R, OF that] assms(2) by simp
  from assms(1) False show ?thesis
    by (cases ty)
      (auto simp: execTags_leaf_def Let_def withAfter_Inr frames_refl
        split: sum.splits if_splits intro: b1 b2 b3 b4)
qed

lemma below_iff: "below q p \<longleftrightarrow> (\<exists>r. p = q @ r)"
proof
  assume "below q p"
  then have "p = q @ drop (length q) p"
    unfolding below_def by (metis append_take_drop_id)
  then show "\<exists>r. p = q @ r" ..
next
  assume "\<exists>r. p = q @ r"
  then show "below q p" by (auto simp: below_def)
qed

lemma inreg_iff: "inreg pre i n p \<longleftrightarrow> (\<exists>j r. p = pre @ j # r \<and> i \<le> j \<and> j < i + n)"
proof
  assume a: "inreg pre i n p"
  then obtain r where r: "p = pre @ r" by (auto simp: inreg_def below_iff)
  with a have "r \<noteq> []" by (auto simp: inreg_def)
  then obtain j r' where "r = j # r'" by (cases r) auto
  with a r show "\<exists>j r. p = pre @ j # r \<and> i \<le> j \<and> j < i + n"
    by (auto simp: inreg_def)
next
  assume "\<exists>j r. p = pre @ j # r \<and> i \<le> j \<and> j < i + n"
  then show "inreg pre i n p" by (auto simp: inreg_def below_def)
qed

lemma below_app: "below (pre @ [i]) p \<Longrightarrow> inreg pre i (Suc n) p"
  unfolding below_iff inreg_iff by auto

lemma inreg_Suc: "inreg pre (Suc i) n p \<Longrightarrow> inreg pre i (Suc n) p"
  by (auto simp: inreg_def)

lemma inreg_below: "inreg q 0 n p \<Longrightarrow> below q p"
  by (simp add: inreg_def)

lemma below_refl: "below q q"
  by (simp add: below_def)

lemma execTags_frames:
  "execTags X G pre i fl st = Inr (st', afs) \<Longrightarrow> frames (inreg pre i (length fl)) st st' afs"
  "execTags_field X G q f st = Inr (st', afs) \<Longrightarrow> frames (below q) st st' afs"
proof (induction X G pre i fl st and X G q f st arbitrary: st' afs and st' afs
    rule: execTags_execTags_field.induct)
  case (1 X G pre i st)
  then show ?case by (simp add: frames_refl)
next
  case (2 X G pre i f fl st)
  from "2.prems" obtain st1 afs1 st2 afs2 where
    a: "execTags_field X G (pre @ [i]) f st = Inr (st1, afs1)"
    and b: "execTags X G pre (Suc i) fl st1 = Inr (st2, afs2)"
    and c: "st' = st2" "afs = afs1 @ afs2"
    by (auto split: sum.splits)
  have "frames (below (pre @ [i])) st st1 afs1"
    by (rule "2.IH"(1) [OF a])
  then have f1: "frames (inreg pre i (Suc (length fl))) st st1 afs1"
    by (rule frames_mono) (rule below_app)
  have "frames (inreg pre (Suc i) (length fl)) st1 st2 afs2"
    by (rule "2.IH"(2) [OF a refl b])
  then have f2: "frames (inreg pre i (Suc (length fl))) st1 st2 afs2"
    by (rule frames_mono) (rule inreg_Suc)
  from frames_trans [OF f1 f2] c show ?case by simp
next
  case (3 X G p name tag fl st)
  then have "frames (inreg p 0 (length fl)) st st' afs" by simp
  then show ?case by (rule frames_mono) (rule inreg_below)
qed (simp_all add: execTags_leaf_frames below_refl)

lemma ranLeaf_here:
  "execTags_leaf X G p (Name lf) (Tag lf) (Type lf) st = Inr (st', afs) \<Longrightarrow> ranLeaf X G p lf st st' afs"
  unfolding ranLeaf_def
  apply (rule exI [of _ "fst st"], rule exI [of _ "snd st"])
  apply (rule exI [of _ "fst st'"], rule exI [of _ "snd st'"])
  apply (rule exI [of _ afs], rule exI [of _ "[]"], rule exI [of _ "[]"])
  apply simp
  done

lemma ranLeaf_after:
  assumes "ranLeaf X G p lf st st1 afs1" "frames R st1 st2 afs2" "\<not> R p"
  shows "ranLeaf X G p lf st st2 (afs1 @ afs2)"
proof -
  from assms(1) obtain h1 fs1 h2 fs2 afs0 before after where
    e: "execTags_leaf X G p (Name lf) (Tag lf) (Type lf) (h1, fs1) = Inr ((h2, fs2), afs0)"
    and h: "\<forall>a. addrPath a = Some p \<longrightarrow> h1 a = fst st a \<and> fst st1 a = h2 a"
    and f1: "fs1 = snd st @ before" and f2: "snd st1 = fs2 @ after"
    and t: "\<forall>g\<in>set (before @ after). addrPath (flag_Target g) \<noteq> Some p"
    and af: "TimeAfter p \<in> set afs1 \<longleftrightarrow> TimeAfter p \<in> set afs0"
    unfolding ranLeaf_def by blast
  from assms(2) obtain new where
    fr: "\<forall>a. (\<forall>p. addrPath a = Some p \<longrightarrow> \<not> R p) \<longrightarrow> fst st2 a = fst st1 a"
    and n: "snd st2 = snd st1 @ new"
    and nt: "\<forall>g\<in>set new. \<exists>p. addrPath (flag_Target g) = Some p \<and> R p"
    and at: "\<forall>p. TimeAfter p \<in> set afs2 \<longrightarrow> R p"
    unfolding frames_def by blast
  have h': "\<forall>a. addrPath a = Some p \<longrightarrow> h1 a = fst st a \<and> fst st2 a = h2 a"
    using h fr assms(3) by auto
  have f2': "snd st2 = fs2 @ (after @ new)"
    using f2 n by simp
  have t': "\<forall>g\<in>set (before @ (after @ new)). addrPath (flag_Target g) \<noteq> Some p"
    using t nt assms(3) by auto
  have af': "TimeAfter p \<in> set (afs1 @ afs2) \<longleftrightarrow> TimeAfter p \<in> set afs0"
    using af at assms(3) by auto
  show ?thesis
    unfolding ranLeaf_def using e h' f1 f2' t' af' by blast
qed

lemma ranLeaf_before:
  assumes "frames R st st1 afs1" "ranLeaf X G p lf st1 st2 afs2" "\<not> R p"
  shows "ranLeaf X G p lf st st2 (afs1 @ afs2)"
proof -
  from assms(2) obtain h1 fs1 h2 fs2 afs0 before after where
    e: "execTags_leaf X G p (Name lf) (Tag lf) (Type lf) (h1, fs1) = Inr ((h2, fs2), afs0)"
    and h: "\<forall>a. addrPath a = Some p \<longrightarrow> h1 a = fst st1 a \<and> fst st2 a = h2 a"
    and f1: "fs1 = snd st1 @ before" and f2: "snd st2 = fs2 @ after"
    and t: "\<forall>g\<in>set (before @ after). addrPath (flag_Target g) \<noteq> Some p"
    and af: "TimeAfter p \<in> set afs2 \<longleftrightarrow> TimeAfter p \<in> set afs0"
    unfolding ranLeaf_def by blast
  from assms(1) obtain new where
    fr: "\<forall>a. (\<forall>p. addrPath a = Some p \<longrightarrow> \<not> R p) \<longrightarrow> fst st1 a = fst st a"
    and n: "snd st1 = snd st @ new"
    and nt: "\<forall>g\<in>set new. \<exists>p. addrPath (flag_Target g) = Some p \<and> R p"
    and at: "\<forall>p. TimeAfter p \<in> set afs1 \<longrightarrow> R p"
    unfolding frames_def by blast
  have h': "\<forall>a. addrPath a = Some p \<longrightarrow> h1 a = fst st a \<and> fst st2 a = h2 a"
    using h fr assms(3) by auto
  have f1': "fs1 = snd st @ (new @ before)"
    using f1 n by simp
  have t': "\<forall>g\<in>set ((new @ before) @ after). addrPath (flag_Target g) \<noteq> Some p"
    using t nt assms(3) by auto
  have af': "TimeAfter p \<in> set (afs1 @ afs2) \<longleftrightarrow> TimeAfter p \<in> set afs0"
    using af at assms(3) by auto
  show ?thesis
    unfolding ranLeaf_def using e h' f1' f2 t' af' by blast
qed

lemma not_inreg_Suc: "\<not> inreg pre (Suc i) n (pre @ i # r)"
  by (simp add: inreg_def nth_append)

lemma not_below_app: "\<not> below (pre @ [i]) (pre @ (Suc (i + k)) # r)"
  by (simp add: below_def)

lemma subfieldAt_leaf:
  "\<not> isStruct (Type f) \<Longrightarrow> subfieldAt f r = Some lf \<Longrightarrow> r = [] \<and> lf = f"
  by (cases r; cases "Type f") (auto simp: isStruct_def)

lemma execTags_ranLeaf:
  "execTags X G pre i fl st = Inr (st', afs) \<Longrightarrow> k < length fl \<Longrightarrow>
     subfieldAt (fl ! k) r = Some lf \<Longrightarrow> \<not> isStruct (Type lf) \<Longrightarrow>
     ranLeaf X G (pre @ (i + k) # r) lf st st' afs"
  "execTags_field X G q f st = Inr (st', afs) \<Longrightarrow>
     subfieldAt f r = Some lf \<Longrightarrow> \<not> isStruct (Type lf) \<Longrightarrow>
     ranLeaf X G (q @ r) lf st st' afs"
proof (induction X G pre i fl st and X G q f st arbitrary: st' afs k r lf and st' afs r lf
    rule: execTags_execTags_field.induct)
  case (1 X G pre i st)
  then show ?case by simp
next
  case (2 X G pre i f fl st)
  from "2.prems"(1) obtain st1 afs1 st2 afs2 where
    a: "execTags_field X G (pre @ [i]) f st = Inr (st1, afs1)"
    and b: "execTags X G pre (Suc i) fl st1 = Inr (st2, afs2)"
    and c: "st' = st2" "afs = afs1 @ afs2"
    by (auto split: sum.splits)
  show ?case
  proof (cases k)
    case 0
    with "2.prems" have "subfieldAt f r = Some lf" by simp
    from "2.IH"(1) [OF a this "2.prems"(4)]
    have "ranLeaf X G (pre @ i # r) lf st st1 afs1" by simp
    from ranLeaf_after [OF this execTags_frames(1) [OF b] not_inreg_Suc] c 0
    show ?thesis by simp
  next
    case (Suc k')
    with "2.prems" have "k' < length fl" "subfieldAt (fl ! k') r = Some lf" by simp_all
    from "2.IH"(2) [OF a refl b this "2.prems"(4)]
    have "ranLeaf X G (pre @ Suc (i + k') # r) lf st1 st2 afs2" by simp
    from ranLeaf_before [OF execTags_frames(2) [OF a] this not_below_app] c Suc
    show ?thesis by simp
  qed
next
  case (3 X G p name tag fl st)
  from "3.prems"(2,3) obtain j r' where r: "r = j # r'"
    by (cases r) (auto simp: isStruct_def)
  with "3.prems"(2) have j: "j < length fl" "subfieldAt (fl ! j) r' = Some lf"
    by (auto split: if_splits)
  from "3.prems"(1) have "execTags X G p 0 fl st = Inr (st', afs)" by simp
  from "3.IH" [OF this j "3.prems"(3)] r show ?case by simp
qed (auto dest!: subfieldAt_leaf [rotated] intro!: ranLeaf_here simp: isStruct_def)

lemma fs_Lookup_map:
  "(\<And>g. flag_Name (u g) = flag_Name g) \<Longrightarrow> fs_Lookup (map u fs) n = map_option u (fs_Lookup fs n)"
  by (induction fs) (auto simp: fs_Lookup_def)

lemma fs_Lookup_Some: "fs_Lookup fs n = Some g \<Longrightarrow> g \<in> set fs \<and> flag_Name g = n"
  unfolding fs_Lookup_def by (induction fs) (auto split: if_splits)

lemma fs_Lookup_append:
  "fs_Lookup (fs @ fs') n = (case fs_Lookup fs n of Some g \<Rightarrow> Some g | None \<Rightarrow> fs_Lookup fs' n)"
  unfolding fs_Lookup_def by (induction fs) auto

lemma fs_Set_result:
  assumes "fs_Set X name text (h, fs) = Inr (h', fs')"
  shows "\<exists>g v. fs_Lookup fs name = Some g
           \<and> flag_Value_Set X (flag_Type g) (flag_ValueSet g) (h (flag_Target g)) text = Inr v
           \<and> h' = h(flag_Target g := v)
           \<and> fs' = map (\<lambda>g'. if flag_Name g' = name
                               then g'\<lparr>flag_Changed := True, flag_ValueSet := True\<rparr>
                               else g') fs"
  using assms by (auto simp: fs_Set_def split: option.splits sum.splits)

lemma fs_Parse_bound:
  "fs_Parse X args (h, fs) = Inr (h', fs') \<Longrightarrow> boundTo fs n a ty wasSet \<Longrightarrow>
     setTexts X ty wasSet (h a) (supplied n args) = Inr (h' a)"
proof (induction args arbitrary: h fs wasSet)
  case Nil
  then show ?case by (simp add: supplied_def)
next
  case (Cons arg args)
  obtain name tx where arg: "arg = (name, tx)" by (cases arg)
  from Cons.prems(1) arg obtain h1 fs1 where
    s: "fs_Set X name tx (h, fs) = Inr (h1, fs1)" and r: "fs_Parse X args (h1, fs1) = Inr (h', fs')"
    by (auto split: sum.splits)
  define u :: "Flag \<Rightarrow> Flag" where "u = (\<lambda>g'. if flag_Name g' = name
                               then g'\<lparr>flag_Changed := True, flag_ValueSet := True\<rparr>
                               else g')"
  have un: "flag_Name (u g) = flag_Name g" and ut: "flag_Target (u g) = flag_Target g"
    and uy: "flag_Type (u g) = flag_Type g" for g
    by (simp_all add: u_def)
  from fs_Set_result [OF s] obtain g0 v where
    l0: "fs_Lookup fs name = Some g0"
    and v: "flag_Value_Set X (flag_Type g0) (flag_ValueSet g0) (h (flag_Target g0)) tx = Inr v"
    and h1: "h1 = h(flag_Target g0 := v)" and fs1: "fs1 = map u fs"
    unfolding u_def by blast
  from Cons.prems(2) obtain g where
    l: "fs_Lookup fs n = Some g" and g: "flag_Target g = a" "flag_Type g = ty" "flag_ValueSet g = wasSet"
    and others: "\<forall>g'\<in>set fs. flag_Target g' = a \<longrightarrow> flag_Name g' = n"
    unfolding boundTo_def by blast
  have others1: "\<forall>g'\<in>set fs1. flag_Target g' = a \<longrightarrow> flag_Name g' = n"
    using others by (auto simp: fs1 un ut)
  have l1: "fs_Lookup fs1 n = Some (u g)"
    by (simp add: fs1 fs_Lookup_map [of u, OF un] l)
  show ?case
  proof (cases "name = n")
    case True
    with l l0 have "g0 = g" by simp
    with v g h1 have v': "flag_Value_Set X ty wasSet (h a) tx = Inr v" and "h1 a = v"
      by simp_all
    have "boundTo fs1 n a ty True"
      unfolding boundTo_def using l1 others1 g True fs_Lookup_Some [OF l] by (simp add: u_def)
    from Cons.IH [OF r this] \<open>h1 a = v\<close> v' True arg show ?thesis
      by (simp add: supplied_def)
  next
    case False
    from fs_Lookup_Some [OF l0] others False g have "flag_Target g0 \<noteq> a" by auto
    with h1 have "h1 a = h a" by simp
    have "boundTo fs1 n a ty wasSet"
      unfolding boundTo_def using l1 others1 g False fs_Lookup_Some [OF l] by (simp add: u_def)
    from Cons.IH [OF r this] \<open>h1 a = h a\<close> False arg show ?thesis
      by (simp add: supplied_def)
  qed
qed

lemma fs_Parse_unbound:
  "fs_Parse X args (h, fs) = Inr (h', fs') \<Longrightarrow> \<forall>g\<in>set fs. flag_Target g \<noteq> a \<Longrightarrow> h' a = h a"
proof (induction args arbitrary: h fs)
  case Nil
  then show ?case by simp
next
  case (Cons arg args)
  obtain name tx where arg: "arg = (name, tx)" by (cases arg)
  from Cons.prems(1) arg obtain h1 fs1 where
    s: "fs_Set X name tx (h, fs) = Inr (h1, fs1)" and r: "fs_Parse X args (h1, fs1) = Inr (h', fs')"
    by (auto split: sum.splits)
  from fs_Set_result [OF s] obtain g0 v where
    l0: "fs_Lookup fs name = Some g0"
    and h1: "h1 = h(flag_Target g0 := v)"
    and fs1: "fs1 = map (\<lambda>g'. if flag_Name g' = name
                               then g'\<lparr>flag_Changed := True, flag_ValueSet := True\<rparr>
                               else g') fs"
    by blast
  from fs_Lookup_Some [OF l0] Cons.prems(2) h1 have "h1 a = h a" by auto
  moreover have "\<forall>g\<in>set fs1. flag_Target g \<noteq> a"
    using Cons.prems(2) by (auto simp: fs1)
  ultimately show ?case using Cons.IH [OF r] by simp
qed

lemma timeAfterFunc_eq:
  "timeAfterFunc X G p h =
     (let s = the_string (h (SVarAddr p)) in
      if s = [] then Inr h
      else case timeOf X G s of
             Some t \<Rightarrow> Inr (h(FieldAddr p := VTime t))
           | None \<Rightarrow> Inl (ErrorValue ''value did not match expected time formats'' s))"
  by (simp add: timeAfterFunc_def timeOf_def Let_def split: sum.splits option.splits)

lemma runAfterFuncs_frame:
  "runAfterFuncs X G afs h = Inr h' \<Longrightarrow>
     h' (SVarAddr q) = h (SVarAddr q) \<and> (TimeAfter q \<notin> set afs \<longrightarrow> h' (FieldAddr q) = h (FieldAddr q))"
proof (induction afs arbitrary: h)
  case Nil
  then show ?case by simp
next
  case (Cons af afs)
  obtain p where af: "af = TimeAfter p" by (cases af)
  from Cons.prems af obtain h1 where
    t: "timeAfterFunc X G p h = Inr h1" and r: "runAfterFuncs X G afs h1 = Inr h'"
    by (auto split: sum.splits)
  from t have "h1 (SVarAddr q) = h (SVarAddr q)" "p \<noteq> q \<Longrightarrow> h1 (FieldAddr q) = h (FieldAddr q)"
    by (auto simp: timeAfterFunc_eq Let_def split: if_splits option.splits)
  with Cons.IH [OF r] af show ?case by auto
qed


lemma flagName_parts:
  "strings_Split (tag_flag tag) '','' = name # rest \<Longrightarrow> flagName tag = name"
  by (simp add: flagName_def)

lemma execTags_leaf_coerce:
  assumes "bindable ty" "\<not> inert tag ty"
  shows "execTags_leaf X G p name tag ty st =
     (case coerce X tag ty (effectiveValue X G name tag) of
        Inl e \<Rightarrow> Inl e
      | Inr d \<Rightarrow>
          withAfter []
            (if isSlice ty then fs_Var (FieldAddr p) ty (strings_Split (tag_flag tag) '','') d st
             else bindOrSet tag (FieldAddr p) ty (strings_Split (tag_flag tag) '','') d st))"
  using assms
  by (cases ty)
    (simp_all add: bindable_def execTags_leaf_def coerce_def isSlice_def Let_def
      split: sum.splits)

lemma execTags_leaf_bindable:
  assumes "execTags_leaf X G p name tag ty (h1, fs1) = Inr ((h2, fs2), afs1)"
    and "bindable ty" "\<not> inert tag ty"
  shows "\<exists>d. coerce X tag ty (effectiveValue X G name tag) = Inr d \<and> h2 (FieldAddr p) = d
           \<and> afs1 = []
           \<and> (if registers tag ty
               then \<exists>g. fs2 = fs1 @ [g] \<and> flag_Name g = flagName tag
                      \<and> flag_Target g = FieldAddr p \<and> flag_Type g = ty \<and> \<not> flag_ValueSet g
                      \<and> fs_Lookup fs1 (flagName tag) = None
               else fs2 = fs1)"
proof -
  from assms(1) obtain d where d: "coerce X tag ty (effectiveValue X G name tag) = Inr d"
    and r: "withAfter []
            (if isSlice ty then fs_Var (FieldAddr p) ty (strings_Split (tag_flag tag) '','') d (h1, fs1)
             else bindOrSet tag (FieldAddr p) ty (strings_Split (tag_flag tag) '','') d (h1, fs1))
          = Inr ((h2, fs2), afs1)"
    unfolding execTags_leaf_coerce [OF assms(2,3)] by (auto split: sum.splits)
  from r have afs1: "afs1 = []" by (simp add: withAfter_Inr)
  show ?thesis
  proof (cases "isSlice ty")
    case True
    with r have "fs_Var (FieldAddr p) ty (strings_Split (tag_flag tag) '','') d (h1, fs1) = Inr (h2, fs2)"
      by (simp add: withAfter_Inr)
    from fs_Var_result [OF this] True d afs1 show ?thesis
      by (auto simp: registers_def flagName_parts)
  next
    case False
    with r have "bindOrSet tag (FieldAddr p) ty (strings_Split (tag_flag tag) '','') d (h1, fs1) = Inr (h2, fs2)"
      by (simp add: withAfter_Inr)
    from bindOrSet_result [OF this] False d afs1 show ?thesis
      by (auto simp: registers_def flagName_parts split: if_splits)
  qed
qed

lemma execTags_leaf_Time:
  assumes "execTags_leaf X G p name tag Time (h1, fs1) = Inr ((h2, fs2), afs1)"
  shows "h2 (FieldAddr p) = h1 (FieldAddr p) \<and> h2 (SVarAddr p) = VString (effectiveValue X G name tag)
           \<and> afs1 = [TimeAfter p]
           \<and> (if tag_flag tag \<noteq> []
               then \<exists>g. fs2 = fs1 @ [g] \<and> flag_Name g = flagName tag
                      \<and> flag_Target g = SVarAddr p \<and> flag_Type g = String \<and> \<not> flag_ValueSet g
                      \<and> fs_Lookup fs1 (flagName tag) = None
               else fs2 = fs1)"
proof -
  from assms have "bindOrSet tag (SVarAddr p) String (strings_Split (tag_flag tag) '','')
      (VString (effectiveValue X G name tag)) (h1, fs1) = Inr (h2, fs2)" and "afs1 = [TimeAfter p]"
    by (simp_all add: execTags_leaf_def inert_def kindStruct_def Let_def withAfter_Inr)
  from bindOrSet_result [OF this(1)] this(2) show ?thesis
    by (auto simp: flagName_parts split: if_splits)
qed

lemma execTags_leaf_skip:
  assumes "inert tag ty \<or> (\<not> bindable ty \<and> ty \<noteq> Time)"
  shows "execTags_leaf X G p name tag ty st = Inr (st, [])"
  using assms by (cases ty) (auto simp: execTags_leaf_def bindable_def Let_def)

lemma parse_ranLeaf:
  assumes "parse X G args fl h = Inr h'" "fieldAt fl p = Some lf" "\<not> isStruct (Type lf)"
  shows "\<exists>hA fsA afs hB fsB.
           ranLeaf X G p lf (h, []) (hA, fsA) afs
           \<and> fs_Parse X args (hA, fsA) = Inr (hB, fsB)
           \<and> runAfterFuncs X G afs hB = Inr h'"
proof -
  from assms(1) obtain hA fsA afs hB fsB where
    e: "execTags X G [] 0 fl (h, []) = Inr ((hA, fsA), afs)"
    and f: "fs_Parse X args (hA, fsA) = Inr (hB, fsB)"
    and r: "runAfterFuncs X G afs hB = Inr h'"
    by (auto simp: parse_def split: sum.splits)
  from e have "execTags_field X G [] (rootField fl) (h, []) = Inr ((hA, fsA), afs)"
    by (simp add: rootField_def)
  from execTags_ranLeaf(2) [OF this assms(2) [unfolded fieldAt_def] assms(3)]
  have "ranLeaf X G p lf (h, []) (hA, fsA) afs" by simp
  with f r show ?thesis by blast
qed

lemma bindable_not_struct: "bindable ty \<Longrightarrow> \<not> isStruct ty"
  by (cases ty) (simp_all add: bindable_def isStruct_def)

lemma addrPath_simps [simp]:
  "addrPath (FieldAddr p) = Some p" "addrPath (SVarAddr p) = Some p" "addrPath (ExternAddr n) = None"
  by (simp_all add: addrPath_def)

lemma no_target:
  "\<forall>g\<in>set fs. addrPath (flag_Target g) \<noteq> Some p \<Longrightarrow> addrPath a = Some p \<Longrightarrow>
     \<forall>g\<in>set fs. flag_Target g \<noteq> a"
  by metis

lemma boundTo_registered:
  assumes "fs_Lookup fs1 n = None" "flag_Name g = n" "flag_Target g = a" "flag_Type g = ty"
    "\<not> flag_ValueSet g" "addrPath a = Some p"
    "\<forall>g'\<in>set fs1 \<union> set after. addrPath (flag_Target g') \<noteq> Some p"
  shows "boundTo (fs1 @ [g] @ after) n a ty False"
  unfolding boundTo_def
proof (intro conjI ballI impI)
  have "fs_Lookup (fs1 @ [g] @ after) n = Some g"
    using assms(1,2) by (simp add: fs_Lookup_append) (simp add: fs_Lookup_def)
  then show "\<exists>g'. fs_Lookup (fs1 @ [g] @ after) n = Some g' \<and> flag_Target g' = a
      \<and> flag_Type g' = ty \<and> flag_ValueSet g' = False"
    using assms(3,4,5) by simp
next
  fix g' assume "g' \<in> set (fs1 @ [g] @ after)" "flag_Target g' = a"
  with assms(6,7) have "g' = g" by auto
  with assms(2) show "flag_Name g' = n" by simp
qed

lemma parse_bindable:
  assumes "parse X G args fl h = Inr h'"
    and "fieldAt fl p = Some (StructField name tag ty)"
    and "bindable ty" "\<not> inert tag ty"
  shows "\<exists>d. coerce X tag ty (effectiveValue X G name tag) = Inr d
           \<and> (if registers tag ty
               then setTexts X ty False d (supplied (flagName tag) args) = Inr (h' (FieldAddr p))
               else h' (FieldAddr p) = d)"
proof -
  have ns: "\<not> isStruct (Type (StructField name tag ty))"
    using assms(3) by (simp add: bindable_not_struct)
  from parse_ranLeaf [OF assms(1,2) ns] obtain hA fsA afs hB fsB where
    rl: "ranLeaf X G p (StructField name tag ty) (h, []) (hA, fsA) afs"
    and fp: "fs_Parse X args (hA, fsA) = Inr (hB, fsB)"
    and ra: "runAfterFuncs X G afs hB = Inr h'"
    by blast
  from rl obtain h1 fs1 h2 fs2 afs1 before after where
    e: "execTags_leaf X G p name tag ty (h1, fs1) = Inr ((h2, fs2), afs1)"
    and hh: "\<forall>a. addrPath a = Some p \<longrightarrow> h1 a = h a \<and> hA a = h2 a"
    and f1: "fs1 = before" and f2: "fsA = fs2 @ after"
    and t: "\<forall>g\<in>set (before @ after). addrPath (flag_Target g) \<noteq> Some p"
    and af: "TimeAfter p \<in> set afs \<longleftrightarrow> TimeAfter p \<in> set afs1"
    unfolding ranLeaf_def by auto
  from execTags_leaf_bindable [OF e assms(3,4)] obtain d where
    d: "coerce X tag ty (effectiveValue X G name tag) = Inr d"
    and h2: "h2 (FieldAddr p) = d" and afs1: "afs1 = []"
    and reg: "if registers tag ty
               then \<exists>g. fs2 = fs1 @ [g] \<and> flag_Name g = flagName tag
                      \<and> flag_Target g = FieldAddr p \<and> flag_Type g = ty \<and> \<not> flag_ValueSet g
                      \<and> fs_Lookup fs1 (flagName tag) = None
               else fs2 = fs1"
    by blast
  have hA: "hA (FieldAddr p) = d" using hh h2 by simp
  have "TimeAfter p \<notin> set afs" using af afs1 by simp
  with runAfterFuncs_frame [OF ra, of p] have fin: "h' (FieldAddr p) = hB (FieldAddr p)" by simp
  show ?thesis
  proof (cases "registers tag ty")
    case True
    with reg obtain g where g: "fs2 = fs1 @ [g]" "flag_Name g = flagName tag"
      "flag_Target g = FieldAddr p" "flag_Type g = ty" "\<not> flag_ValueSet g"
      "fs_Lookup fs1 (flagName tag) = None"
      by auto
    have "boundTo (fs1 @ [g] @ after) (flagName tag) (FieldAddr p) ty False"
      by (rule boundTo_registered [OF g(6,2,3,4,5)]) (use t f1 in auto)
    then have "boundTo fsA (flagName tag) (FieldAddr p) ty False"
      using f2 g(1) by simp
    from fs_Parse_bound [OF fp this] hA fin d True show ?thesis by simp
  next
    case False
    with reg have "fsA = before @ after" using f1 f2 by simp
    with t have "\<forall>g\<in>set fsA. flag_Target g \<noteq> FieldAddr p"
      using no_target [of "before @ after" p "FieldAddr p"] by simp
    from fs_Parse_unbound [OF fp this] hA fin d False show ?thesis by simp
  qed
qed



lemma parse_untouched:
  assumes "parse X G args fl h = Inr h'"
    and "fieldAt fl p = Some (StructField name tag ty)"
    and "\<not> isStruct ty"
    and "inert tag ty \<or> (\<not> bindable ty \<and> ty \<noteq> Time)"
  shows "h' (FieldAddr p) = h (FieldAddr p)"
proof -
  have ns: "\<not> isStruct (Type (StructField name tag ty))"
    using assms(3) by simp
  from parse_ranLeaf [OF assms(1,2) ns] obtain hA fsA afs hB fsB where
    rl: "ranLeaf X G p (StructField name tag ty) (h, []) (hA, fsA) afs"
    and fp: "fs_Parse X args (hA, fsA) = Inr (hB, fsB)"
    and ra: "runAfterFuncs X G afs hB = Inr h'"
    by blast
  from rl obtain h1 fs1 h2 fs2 afs1 before after where
    e: "execTags_leaf X G p name tag ty (h1, fs1) = Inr ((h2, fs2), afs1)"
    and hh: "\<forall>a. addrPath a = Some p \<longrightarrow> h1 a = h a \<and> hA a = h2 a"
    and f1: "fs1 = before" and f2: "fsA = fs2 @ after"
    and t: "\<forall>g\<in>set (before @ after). addrPath (flag_Target g) \<noteq> Some p"
    and af: "TimeAfter p \<in> set afs \<longleftrightarrow> TimeAfter p \<in> set afs1"
    unfolding ranLeaf_def by auto
  from e execTags_leaf_skip [OF assms(4), of X G p name "(h1, fs1)"]
  have same: "h2 = h1" "fs2 = fs1" "afs1 = []" by simp_all
  have hA: "hA (FieldAddr p) = h (FieldAddr p)" using hh same by simp
  have "\<forall>g\<in>set fsA. flag_Target g \<noteq> FieldAddr p"
    using no_target [OF t, of "FieldAddr p"] f1 f2 same by simp
  from fs_Parse_unbound [OF fp this] hA have "hB (FieldAddr p) = h (FieldAddr p)" by simp
  moreover have "TimeAfter p \<notin> set afs" using af same by simp
  ultimately show ?thesis using runAfterFuncs_frame [OF ra, of p] by simp
qed

lemma has_prefix_append: "has_prefix sep s \<Longrightarrow> s = sep @ drop (length sep) s"
  by (induction sep s rule: has_prefix.induct) auto

lemma split_from_nonempty: "split_from sep cur s \<noteq> []"
  by (induction sep cur s rule: split_from.induct) auto

lemma strings_Join_Cons: "rest \<noteq> [] \<Longrightarrow> strings_Join (x # rest) sep = x @ sep @ strings_Join rest sep"
  by (cases rest) auto

lemma join_split_from: "sep \<noteq> [] \<Longrightarrow> strings_Join (split_from sep cur s) sep = cur @ s"
proof (induction sep cur s rule: split_from.induct)
  case (1 sep cur)
  then show ?case by simp
next
  case (2 sep cur c cs)
  show ?case
  proof (cases "has_prefix sep (c # cs)")
    case True
    from has_prefix_append [OF True] "2.prems"
    have eq: "c # cs = sep @ drop (length sep - 1) cs"
      by (cases sep) auto
    have "strings_Join (split_from sep cur (c # cs)) sep
        = cur @ sep @ strings_Join (split_from sep [] (drop (length sep - 1) cs)) sep"
      using True "2.prems" by (simp add: strings_Join_Cons split_from_nonempty)
    also have "\<dots> = cur @ sep @ drop (length sep - 1) cs"
      using "2.IH"(1) True "2.prems" by simp
    finally show ?thesis using eq by simp
  next
    case False
    with 2 show ?thesis by simp
  qed
qed

lemma strings_Join_Split: "sep \<noteq> [] \<Longrightarrow> strings_Join (strings_Split s sep) sep = s"
  by (simp add: strings_Split_def join_split_from)

lemma coerce_SliceInt_empty: "coerce X tag SliceInt [] = Inl (Errorf ''parsing int'' ErrSyntax)"
  by (simp add: coerce_def strings_Split_def strings_TrimSpace_def strconv_ParseInt_empty)

lemma inert_kind: "\<not> kindStruct ty \<Longrightarrow> \<not> kindStruct ty' \<Longrightarrow> inert tag ty = inert tag ty'"
  by (simp add: inert_def)



lemma execTags_leaf_flagFrom:
  assumes "execTags_leaf X G p name tag ty st = Inr (st', afs)" "\<not> isStruct ty"
  shows "\<exists>new. snd st' = snd st @ new \<and> (\<forall>g\<in>set new. flagFrom p (StructField name tag ty) g)"
proof -
  obtain h1 fs1 h2 fs2 where st: "st = (h1, fs1)" "st' = (h2, fs2)"
    by (cases st; cases st') auto
  have here: "flagFrom p (StructField name tag ty) g"
    if "addrPath (flag_Target g) = Some p" "flagName tag = flag_Name g" "registers tag ty" for g
    unfolding flagFrom_def using that assms(2)
    by (intro exI [of _ "[]"] exI [of _ name] exI [of _ tag] exI [of _ ty]) simp
  consider (skip) "inert tag ty \<or> (\<not> bindable ty \<and> ty \<noteq> Time)"
    | (bind) "bindable ty" "\<not> inert tag ty"
    | (time) "ty = Time" "\<not> inert tag ty"
    by blast
  then show ?thesis
  proof cases
    case skip
    from execTags_leaf_skip [OF skip, of X G p name st] assms(1) show ?thesis by simp
  next
    case bind
    show ?thesis
    proof (cases "registers tag ty")
      case True
      with execTags_leaf_bindable [OF assms(1) [unfolded st] bind] obtain g where
        g: "fs2 = fs1 @ [g]" "flag_Name g = flagName tag" "flag_Target g = FieldAddr p"
        by auto
      have "flagFrom p (StructField name tag ty) g"
        by (rule here) (simp_all add: g True)
      with g(1) show ?thesis by (simp add: st)
    next
      case False
      with execTags_leaf_bindable [OF assms(1) [unfolded st] bind] show ?thesis
        by (auto simp: st)
    qed
  next
    case time
    show ?thesis
    proof (cases "tag_flag tag = []")
      case False
      with execTags_leaf_Time [OF assms(1) [unfolded st time(1)]] obtain g where
        g: "fs2 = fs1 @ [g]" "flag_Name g = flagName tag" "flag_Target g = SVarAddr p"
        by auto
      have "flagFrom p (StructField name tag ty) g"
        by (rule here) (simp_all add: g False registers_def)
      with g(1) show ?thesis by (simp add: st)
    next
      case True
      with execTags_leaf_Time [OF assms(1) [unfolded st time(1)]] show ?thesis
        by (auto simp: st)
    qed
  qed
qed

lemma flagFrom_sub:
  assumes "flagFrom (q @ [k]) (fl ! k) g" "k < length fl"
  shows "flagFrom q (StructField name tag (Struct fl)) g"
proof -
  from assms(1) obtain r n t ty where
    "subfieldAt (fl ! k) r = Some (StructField n t ty)" "\<not> isStruct ty"
    "addrPath (flag_Target g) = Some ((q @ [k]) @ r)" "flagName t = flag_Name g" "registers t ty"
    unfolding flagFrom_def by blast
  then show ?thesis
    unfolding flagFrom_def using assms(2)
    by (intro exI [of _ "k # r"] exI [of _ n] exI [of _ t] exI [of _ ty]) simp
qed

lemma execTags_flagFrom:
  "execTags X G pre i fl st = Inr (st', afs) \<Longrightarrow>
     \<exists>new. snd st' = snd st @ new
       \<and> (\<forall>g\<in>set new. \<exists>k. k < length fl \<and> flagFrom (pre @ [i + k]) (fl ! k) g)"
  "execTags_field X G q f st = Inr (st', afs) \<Longrightarrow>
     \<exists>new. snd st' = snd st @ new \<and> (\<forall>g\<in>set new. flagFrom q f g)"
proof (induction X G pre i fl st and X G q f st arbitrary: st' afs and st' afs
    rule: execTags_execTags_field.induct)
  case (1 X G pre i st)
  then show ?case by simp
next
  case (2 X G pre i f fl st)
  from "2.prems" obtain st1 afs1 st2 afs2 where
    a: "execTags_field X G (pre @ [i]) f st = Inr (st1, afs1)"
    and b: "execTags X G pre (Suc i) fl st1 = Inr (st2, afs2)"
    and c: "st' = st2" "afs = afs1 @ afs2"
    by (auto split: sum.splits)
  from "2.IH"(1) [OF a] obtain new1 where
    n1: "snd st1 = snd st @ new1" "\<forall>g\<in>set new1. flagFrom (pre @ [i]) f g"
    by blast
  from "2.IH"(2) [OF a refl b] obtain new2 where
    n2: "snd st2 = snd st1 @ new2"
      "\<forall>g\<in>set new2. \<exists>k. k < length fl \<and> flagFrom (pre @ [Suc i + k]) (fl ! k) g"
    by blast
  have "\<forall>g\<in>set (new1 @ new2). \<exists>k. k < length (f # fl) \<and> flagFrom (pre @ [i + k]) ((f # fl) ! k) g"
  proof
    fix g assume "g \<in> set (new1 @ new2)"
    then consider "g \<in> set new1" | "g \<in> set new2" by auto
    then show "\<exists>k. k < length (f # fl) \<and> flagFrom (pre @ [i + k]) ((f # fl) ! k) g"
    proof cases
      case 1
      with n1(2) show ?thesis by (intro exI [of _ 0]) simp
    next
      case 2
      with n2(2) obtain k where "k < length fl" "flagFrom (pre @ [Suc i + k]) (fl ! k) g" by blast
      then show ?thesis by (intro exI [of _ "Suc k"]) simp
    qed
  qed
  with n1(1) n2(1) c show ?case by (intro exI [of _ "new1 @ new2"]) simp
next
  case (3 X G p name tag fl st)
  from "3.prems" have "execTags X G p 0 fl st = Inr (st', afs)" by simp
  from "3.IH" [OF this] obtain new where
    n: "snd st' = snd st @ new" "\<forall>g\<in>set new. \<exists>k. k < length fl \<and> flagFrom (p @ [0 + k]) (fl ! k) g"
    by blast
  have "\<forall>g\<in>set new. flagFrom p (StructField name tag (Struct fl)) g"
    using n(2) flagFrom_sub [of p _ fl] by auto
  with n(1) show ?case by blast
qed (auto intro!: execTags_leaf_flagFrom simp: isStruct_def)

lemma RegisterFlags_registeredOn:
  assumes "RegisterFlags X G fl (h, []) = Inr (h1, fs1)"
  shows "registeredOn fl fs1"
proof -
  from assms obtain afs where "execTags X G [] 0 fl (h, []) = Inr ((h1, fs1), afs)"
    by (auto simp: RegisterFlags_def split: sum.splits)
  then have "execTags_field X G [] (rootField fl) (h, []) = Inr ((h1, fs1), afs)"
    by (simp add: rootField_def)
  from execTags_flagFrom(2) [OF this] have "\<forall>g\<in>set fs1. flagFrom [] (rootField fl) g" by simp
  then show ?thesis
    unfolding registeredOn_def flagFrom_def fieldAt_def by fastforce
qed

lemma sameFlags_refl: "sameFlags fs fs"
  by (simp add: sameFlags_def)

lemma sameFlags_trans: "sameFlags fs fs1 \<Longrightarrow> sameFlags fs1 fs2 \<Longrightarrow> sameFlags fs fs2"
  by (simp add: sameFlags_def)

lemma sameFlags_mark:
  "sameFlags fs (map (\<lambda>g. if flag_Name g = n then g\<lparr>flag_ValueSet := True\<rparr> else g) fs)"
  by (simp add: sameFlags_def comp_def)

lemma sameFlags_Lookup:
  assumes "sameFlags fs fs'"
  shows "map_option (\<lambda>g. g\<lparr>flag_ValueSet := False\<rparr>) (fs_Lookup fs n)
       = map_option (\<lambda>g. g\<lparr>flag_ValueSet := False\<rparr>) (fs_Lookup fs' n)"
proof -
  have "fs_Lookup (map (\<lambda>g. g\<lparr>flag_ValueSet := False\<rparr>) fs) n
      = fs_Lookup (map (\<lambda>g. g\<lparr>flag_ValueSet := False\<rparr>) fs') n"
    using assms by (simp add: sameFlags_def)
  then show ?thesis
    by (simp add: fs_Lookup_map)
qed

lemma mayWrite_same:
  assumes "sameFlags fs fs'"
  shows "mayWrite fs a q tag ty = mayWrite fs' a q tag ty"
proof -
  from sameFlags_Lookup [OF assms, of "flagName tag"]
  have "(case fs_Lookup fs (flagName tag) of
           Some g \<Rightarrow> \<not> flag_Changed g \<and> flag_Target g = a
         | None \<Rightarrow> settable ty \<and> a = FieldAddr q)
      = (case fs_Lookup fs' (flagName tag) of
           Some g \<Rightarrow> \<not> flag_Changed g \<and> flag_Target g = a
         | None \<Rightarrow> settable ty \<and> a = FieldAddr q)"
    by (cases "fs_Lookup fs (flagName tag)"; cases "fs_Lookup fs' (flagName tag)")
      (auto dest: arg_cong [where f = flag_Changed] arg_cong [where f = flag_Target])
  then show ?thesis by (simp add: mayWrite_def)
qed

lemma setFieldValue_frame:
  assumes "setFieldValue X G a' ty v h = Inr h'" "\<not> (settable ty \<and> a = a')"
  shows "h' a = h a"
  using assms
  by (cases ty) (auto simp: setFieldValue_def settable_def split: sum.splits option.splits)

lemma applyEnvAndDefaults_leaf_frame:
  assumes "applyEnvAndDefaults_leaf X G q name tag ty st = (eo, st')"
  shows "sameFlags (snd st) (snd st') \<and> (\<not> mayWrite (snd st) a q tag ty \<longrightarrow> fst st' a = fst st a)"
proof -
  define direct where "direct =
            (case setFieldValue X G (FieldAddr q) ty (effectiveValue X G name tag) (fst st) of
               Inl e \<Rightarrow> (Some (Errorf (''setting field '' @ name) e), st)
             | Inr h' \<Rightarrow> (None, (h', snd st)))"
  have d: "sameFlags (snd st) (snd st') \<and> (\<not> (settable ty \<and> a = FieldAddr q) \<longrightarrow> fst st' a = fst st a)"
    if "direct = (eo, st')"
    using that setFieldValue_frame [of X G "FieldAddr q" ty "effectiveValue X G name tag" "fst st" _ a]
    unfolding direct_def by (auto simp: sameFlags_refl split: sum.splits)
  show ?thesis
  proof (cases "tag_flag tag = []")
    case True
    with assms have "direct = (eo, st')"
      by (simp add: applyEnvAndDefaults_leaf_def direct_def Let_def)
    from d [OF this] True show ?thesis by (simp add: mayWrite_def)
  next
    case False
    show ?thesis
    proof (cases "strings_Split (tag_flag tag) '',''")
      case Nil
      with assms False show ?thesis
        by (simp add: applyEnvAndDefaults_leaf_def Let_def sameFlags_refl)
    next
      case (Cons part0 rest)
      then have fn: "flagName tag = part0" by (simp add: flagName_def)
      show ?thesis
      proof (cases "fs_Lookup (snd st) part0")
        case None
        with assms False Cons have "direct = (eo, st')"
          by (simp add: applyEnvAndDefaults_leaf_def direct_def Let_def)
        from d [OF this] False None fn show ?thesis by (simp add: mayWrite_def)
      next
        case (Some flag)
        show ?thesis
        proof (cases "flag_Changed flag")
          case True
          with assms False Cons Some show ?thesis
            by (simp add: applyEnvAndDefaults_leaf_def Let_def sameFlags_refl)
        next
          case nc: False
          show ?thesis
          proof (cases "flag_Value_Set X (flag_Type flag) (flag_ValueSet flag)
                            (fst st (flag_Target flag)) (effectiveValue X G name tag)")
            case (Inl e)
            with assms False Cons Some nc show ?thesis
              by (simp add: applyEnvAndDefaults_leaf_def Let_def sameFlags_refl)
          next
            case (Inr v)
            with assms False Cons Some nc have
              "st' = ((fst st)(flag_Target flag := v),
                           map (\<lambda>g. if flag_Name g = part0 then g\<lparr>flag_ValueSet := True\<rparr> else g)
                             (snd st))"
              by (simp add: applyEnvAndDefaults_leaf_def Let_def)
            with False Some nc fn show ?thesis
              by (simp add: mayWrite_def sameFlags_mark)
          qed
        qed
      qed
    qed
  qed
qed

lemma applyEnvAndDefaults_field_leaf:
  "\<not> isStruct ty \<Longrightarrow>
     applyEnvAndDefaults_field X G p (StructField name tag ty) st
       = applyEnvAndDefaults_leaf X G p name tag ty st"
  by (cases ty) (simp_all add: isStruct_def)

lemma applyEnvAndDefaults_field_leaf_frame:
  assumes "applyEnvAndDefaults_field X G q (StructField name tag ty) st = (eo, st')"
    and "\<not> isStruct ty"
    and "\<forall>r lf. subfieldAt (StructField name tag ty) r = Some lf \<longrightarrow> \<not> isStruct (Type lf) \<longrightarrow>
        \<not> mayWrite (snd st) a (q @ r) (Tag lf) (Type lf)"
  shows "sameFlags (snd st) (snd st') \<and> fst st' a = fst st a"
proof -
  from assms(3) [rule_format, of "[]"] assms(2) have "\<not> mayWrite (snd st) a q tag ty" by simp
  with applyEnvAndDefaults_leaf_frame [of X G q name tag ty st eo st' a] assms(1,2)
  show ?thesis by (simp add: applyEnvAndDefaults_field_leaf)
qed

lemma applyEnvAndDefaults_frames:
  "applyEnvAndDefaults X G pre i fl st = (eo, st') \<Longrightarrow>
     (\<forall>k r lf. k < length fl \<longrightarrow> subfieldAt (fl ! k) r = Some lf \<longrightarrow> \<not> isStruct (Type lf) \<longrightarrow>
        \<not> mayWrite (snd st) a (pre @ (i + k) # r) (Tag lf) (Type lf)) \<Longrightarrow>
     sameFlags (snd st) (snd st') \<and> fst st' a = fst st a"
  "applyEnvAndDefaults_field X G q f st = (eo, st') \<Longrightarrow>
     (\<forall>r lf. subfieldAt f r = Some lf \<longrightarrow> \<not> isStruct (Type lf) \<longrightarrow>
        \<not> mayWrite (snd st) a (q @ r) (Tag lf) (Type lf)) \<Longrightarrow>
     sameFlags (snd st) (snd st') \<and> fst st' a = fst st a"
proof (induction X G pre i fl st and X G q f st arbitrary: eo st' and eo st'
    rule: applyEnvAndDefaults_applyEnvAndDefaults_field.induct)
  case (1 X G pre i st)
  then show ?case by (simp add: sameFlags_refl)
next
  case (2 X G pre i f fl st)
  obtain eo1 st1 where a: "applyEnvAndDefaults_field X G (pre @ [i]) f st = (eo1, st1)"
    by (cases "applyEnvAndDefaults_field X G (pre @ [i]) f st")
  have w0: "\<forall>r lf. subfieldAt f r = Some lf \<longrightarrow> \<not> isStruct (Type lf) \<longrightarrow>
        \<not> mayWrite (snd st) a ((pre @ [i]) @ r) (Tag lf) (Type lf)"
    using "2.prems"(2) [rule_format, of 0] by simp
  from "2.IH"(1) [OF a w0] have s1: "sameFlags (snd st) (snd st1)" "fst st1 a = fst st a"
    by simp_all
  show ?case
  proof (cases eo1)
    case (Some e)
    with "2.prems"(1) a s1 show ?thesis by simp
  next
    case None
    with "2.prems"(1) a have b: "applyEnvAndDefaults X G pre (Suc i) fl st1 = (eo, st')"
      by simp
    have w1: "\<forall>k r lf. k < length fl \<longrightarrow> subfieldAt (fl ! k) r = Some lf \<longrightarrow> \<not> isStruct (Type lf) \<longrightarrow>
        \<not> mayWrite (snd st1) a (pre @ (Suc i + k) # r) (Tag lf) (Type lf)"
      using "2.prems"(2) [rule_format, of "Suc _"] mayWrite_same [OF s1(1)] by simp
    from "2.IH"(2) [OF a [symmetric] _ b w1] None
    have "sameFlags (snd st1) (snd st') \<and> fst st' a = fst st1 a" by simp
    with s1 show ?thesis by (auto intro: sameFlags_trans)
  qed
next
  case (3 X G p name tag fl st)
  from "3.prems"(1) have r: "applyEnvAndDefaults X G p 0 fl st = (eo, st')" by simp
  have "\<forall>k r lf. k < length fl \<longrightarrow> subfieldAt (fl ! k) r = Some lf \<longrightarrow> \<not> isStruct (Type lf) \<longrightarrow>
        \<not> mayWrite (snd st) a (p @ (0 + k) # r) (Tag lf) (Type lf)"
    using "3.prems"(2) [rule_format, of "_ # _"] by simp
  from "3.IH" [OF r this] show ?case .
qed (rule applyEnvAndDefaults_field_leaf_frame, assumption, simp add: isStruct_def, assumption)+

lemma registeredOn_cong:
  assumes "map (\<lambda>g. (flag_Name g, flag_Target g)) fs = map (\<lambda>g. (flag_Name g, flag_Target g)) fs1"
    and "registeredOn fl fs1"
  shows "registeredOn fl fs"
  unfolding registeredOn_def
proof
  fix g assume "g \<in> set fs"
  then have "(flag_Name g, flag_Target g) \<in> set (map (\<lambda>g. (flag_Name g, flag_Target g)) fs)"
    by force
  with assms(1) have "(flag_Name g, flag_Target g) \<in> set (map (\<lambda>g. (flag_Name g, flag_Target g)) fs1)"
    by simp
  then obtain g1 where "g1 \<in> set fs1" "flag_Name g1 = flag_Name g" "flag_Target g1 = flag_Target g"
    by auto
  with assms(2) show "\<exists>q name tag ty.
        addrPath (flag_Target g) = Some q \<and> fieldAt fl q = Some (StructField name tag ty)
        \<and> \<not> isStruct ty \<and> flagName tag = flag_Name g \<and> registers tag ty"
    unfolding registeredOn_def by metis
qed

lemma slice_not_settable: "isSlice ty \<Longrightarrow> \<not> settable ty"
  by (auto simp: isSlice_def settable_def)

lemma setFieldValue_Time_eq:
  "setFieldValue X G a Time s h =
     (case timeOf X G s of
        Some t \<Rightarrow> Inr (h(a := VTime t))
      | None \<Rightarrow> Inl (ErrorValue ''unable to parse time'' s))"
  by (simp add: setFieldValue_def timeOf_def split: sum.splits option.splits)

lemma malformed_value_fails:
  "parseIntForType X v k = Inl e \<Longrightarrow> v \<noteq> [] \<Longrightarrow>
     coerce X tag (IntT k) v = Inl (Errorf ''parsing int'' e)
     \<and> setFieldValue X G a (IntT k) v h = Inl e"
  "parseUintForType X v k' = Inl e \<Longrightarrow> v \<noteq> [] \<Longrightarrow>
     coerce X tag (UintT k') v = Inl (Errorf ''parsing uint'' e)
     \<and> setFieldValue X G a (UintT k') v h = Inl e"
  "strconv_ParseFloat X v = Inl e \<Longrightarrow> v \<noteq> [] \<Longrightarrow>
     coerce X tag (FloatT k'') v = Inl (Errorf ''parsing float'' e)
     \<and> setFieldValue X G a (FloatT k'') v h = Inl e"
  "time_ParseDuration X v = Inl e \<Longrightarrow> v \<noteq> [] \<Longrightarrow>
     coerce X tag Duration v = Inl (Errorf ''parsing time.Duration'' e)
     \<and> setFieldValue X G a Duration v h = Inl e"
  by (simp_all add: coerce_def setFieldValue_def)

lemma empty_value_is_zero:
  "coerce X tag (IntT k) [] = Inr (VInt 0)"
  "coerce X tag (UintT k') [] = Inr (VUint 0)"
  "strconv_ParseFloat X [] = Inl e \<Longrightarrow>
     coerce X tag (FloatT k'') [] = Inr (VFloat (toFloat X k'' (float_zero X)))"
  "time_ParseDuration X [] = Inl e \<Longrightarrow> coerce X tag Duration [] = Inr (VDuration 0)"
  by (simp_all add: coerce_def parseIntForType_def parseUintForType_def
      strconv_ParseInt_empty strconv_ParseUint_empty)

section \<open>Sequences\<close>

text \<open>
  Claim C7. For a field of type \<^verbatim>\<open>[]string\<close> that single-pass resolution processes and
  for which the command line supplies no flag value, the resolved value is the effective
  textual value split at the field's delimiter (the \<^verbatim>\<open>delimiter\<close> tag, a comma without
  one), and the empty sequence when the effective value is empty. The split is literal:
  joining the pieces with the delimiter gives back the text, so nothing is trimmed, and
  \<^verbatim>\<open>a, b ,c\<close> splits at the comma into \<^verbatim>\<open>a\<close>, \<^verbatim>\<open> b \<close> and \<^verbatim>\<open>c\<close>.
\<close>

theorem parse_string_slice_split:
  assumes "parse X G args fl h = Inr h'"
    and "fieldAt fl p = Some (StructField name tag SliceString)"
    and "\<not> inert tag SliceString"
    and "supplied (flagName tag) args = []"
  shows "h' (FieldAddr p) =
           VStringSlice
             (if effectiveValue X G name tag = [] then []
              else strings_Split (effectiveValue X G name tag)
                     (if tag_delimiter tag = [] then '','' else tag_delimiter tag))
    \<and> strings_Join (strings_Split (effectiveValue X G name tag)
                       (if tag_delimiter tag = [] then '','' else tag_delimiter tag))
          (if tag_delimiter tag = [] then '','' else tag_delimiter tag)
        = effectiveValue X G name tag
    \<and> strings_Split ''a, b ,c'' '','' = [''a'', '' b '', ''c'']"
proof (intro conjI)
  from parse_bindable [OF assms(1,2) _ assms(3)] assms(4)
  show "h' (FieldAddr p) =
           VStringSlice
             (if effectiveValue X G name tag = [] then []
              else strings_Split (effectiveValue X G name tag)
                     (if tag_delimiter tag = [] then '','' else tag_delimiter tag))"
    by (auto simp: bindable_def registers_def isSlice_def coerce_def)
  show "strings_Join (strings_Split (effectiveValue X G name tag)
                       (if tag_delimiter tag = [] then '','' else tag_delimiter tag))
          (if tag_delimiter tag = [] then '','' else tag_delimiter tag)
        = effectiveValue X G name tag"
    by (rule strings_Join_Split) simp
  show "strings_Split ''a, b ,c'' '','' = [''a'', '' b '', ''c'']"
    by (simp add: strings_Split_def)
qed

theorem parse_string_slice_split_witness:
  "(\<exists>h'. parse (testExtern Map.empty) initialPkgvars []
           [StructField ''Tags'' (noTag\<lparr>tag_default := ''a, b ,c'', tag_flag := ''tags''\<rparr>) SliceString]
           exampleHeap = Inr h'
         \<and> h' (FieldAddr [0]) = VStringSlice [''a'', '' b '', ''c''])
   \<and> (\<exists>h'. parse (testExtern Map.empty) initialPkgvars []
           [StructField ''Tags'' (noTag\<lparr>tag_env := ''TAGS''\<rparr>) SliceString]
           exampleHeap = Inr h'
         \<and> h' (FieldAddr [0]) = VStringSlice [])"
proof -
  let ?X = "testExtern Map.empty"
  let ?t1 = "noTag\<lparr>tag_default := ''a, b ,c'', tag_flag := ''tags''\<rparr>"
  let ?t2 = "noTag\<lparr>tag_env := ''TAGS''\<rparr>"
  let ?h1 = "exampleHeap(FieldAddr [0] := VStringSlice [''a'', '' b '', ''c''])"
  let ?h2 = "exampleHeap(FieldAddr [0] := VStringSlice [])"
  have p1: "parse ?X initialPkgvars [] [StructField ''Tags'' ?t1 SliceString] exampleHeap = Inr ?h1"
    by (simp add: parse_def execTags_leaf_def inert_def kindStruct_def noTag_def
        effectiveValue_def envDefault_def envName_def varDefault_def withAfter_def
        fs_Var_def fs_AddFlag_def fs_Lookup_def strings_Split_def
        testExtern_def initialPkgvars_def)
  have p2: "parse ?X initialPkgvars [] [StructField ''Tags'' ?t2 SliceString] exampleHeap = Inr ?h2"
    by (simp add: parse_def execTags_leaf_def inert_def kindStruct_def noTag_def
        effectiveValue_def envDefault_def envName_def varDefault_def withAfter_def
        fs_Var_def fs_AddFlag_def fs_Lookup_def strings_Split_def
        testExtern_def initialPkgvars_def)
  have f1: "fieldAt [StructField ''Tags'' ?t1 SliceString] [0] = Some (StructField ''Tags'' ?t1 SliceString)"
    and f2: "fieldAt [StructField ''Tags'' ?t2 SliceString] [0] = Some (StructField ''Tags'' ?t2 SliceString)"
    by (simp_all add: fieldAt_def rootField_def)
  have i1: "\<not> inert ?t1 SliceString" and i2: "\<not> inert ?t2 SliceString"
    by (simp_all add: inert_def noTag_def)
  have s: "supplied (flagName ?t1) [] = []" "supplied (flagName ?t2) [] = []"
    by (simp_all add: supplied_def)
  have e1: "effectiveValue ?X initialPkgvars ''Tags'' ?t1 = ''a, b ,c''"
    and e2: "effectiveValue ?X initialPkgvars ''Tags'' ?t2 = []"
    by (simp_all add: effectiveValue_def envDefault_def envName_def varDefault_def noTag_def
        testExtern_def initialPkgvars_def)
  from parse_string_slice_split [OF p1 f1 i1 s(1)] parse_string_slice_split [OF p2 f2 i2 s(2)]
  have "?h1 (FieldAddr [0]) = VStringSlice [''a'', '' b '', ''c'']"
    "?h2 (FieldAddr [0]) = VStringSlice []"
    unfolding e1 e2 by (simp_all add: noTag_def)
  with p1 p2 show ?thesis by blast
qed

text \<open>
  Claim C10. For a field of type \<^verbatim>\<open>[]int\<close> that single-pass resolution processes, an
  empty effective textual value makes the resolution fail: the processing of the field
  returns the error of parsing the one empty piece as an integer, in every state. With
  the same tag and value, a field of type \<^verbatim>\<open>[]string\<close> is given the empty sequence and an
  integer field the value 0.
\<close>

theorem parse_int_slice_empty_fails:
  assumes "fieldAt fl p = Some (StructField name tag SliceInt)"
    and "\<not> inert tag SliceInt"
    and "effectiveValue X G name tag = []"
  shows "(\<exists>e. parse X G args fl h = Inl e)
    \<and> execTags_leaf X G p name tag SliceInt st = Inl (Errorf ''parsing int'' ErrSyntax)
    \<and> execTags_leaf X G p name tag SliceString st
        = withAfter [] (fs_Var (FieldAddr p) SliceString (strings_Split (tag_flag tag) '','')
            (VStringSlice []) st)
    \<and> execTags_leaf X G p name tag (IntT k) st
        = withAfter [] (bindOrSet tag (FieldAddr p) (IntT k) (strings_Split (tag_flag tag) '','')
            (VInt 0) st)"
proof (intro conjI)
  show "\<exists>e. parse X G args fl h = Inl e"
  proof (cases "parse X G args fl h")
    case (Inl e)
    then show ?thesis by blast
  next
    case (Inr h')
    from parse_bindable [OF Inr assms(1) _ assms(2)] assms(3)
    show ?thesis by (simp add: bindable_def coerce_SliceInt_empty)
  qed
  have b: "bindable SliceInt" "bindable SliceString" "bindable (IntT k)"
    by (simp_all add: bindable_def)
  have i: "\<not> inert tag SliceString" "\<not> inert tag (IntT k)"
    using assms(2) by (simp_all add: inert_def kindStruct_def)
  show "execTags_leaf X G p name tag SliceInt st = Inl (Errorf ''parsing int'' ErrSyntax)"
    by (simp add: execTags_leaf_coerce [OF b(1) assms(2)] assms(3) coerce_SliceInt_empty)
  show "execTags_leaf X G p name tag SliceString st
        = withAfter [] (fs_Var (FieldAddr p) SliceString (strings_Split (tag_flag tag) '','')
            (VStringSlice []) st)"
    by (simp add: execTags_leaf_coerce [OF b(2) i(1)] assms(3) coerce_def isSlice_def)
  show "execTags_leaf X G p name tag (IntT k) st
        = withAfter [] (bindOrSet tag (FieldAddr p) (IntT k) (strings_Split (tag_flag tag) '','')
            (VInt 0) st)"
    by (simp add: execTags_leaf_coerce [OF b(3) i(2)] assms(3) coerce_def isSlice_def
        parseIntForType_def strconv_ParseInt_empty)
qed

theorem parse_int_slice_empty_fails_witness:
  "(\<exists>e. parse (testExtern Map.empty) initialPkgvars []
          [StructField ''Ports'' (noTag\<lparr>tag_flag := ''ports''\<rparr>) SliceInt] exampleHeap = Inl e)
   \<and> execTags_leaf (testExtern Map.empty) initialPkgvars [0] ''Ports''
        (noTag\<lparr>tag_flag := ''ports''\<rparr>) SliceInt (exampleHeap, [])
      = Inl (Errorf ''parsing int'' ErrSyntax)"
proof -
  let ?X = "testExtern Map.empty"
  let ?t = "noTag\<lparr>tag_flag := ''ports''\<rparr>"
  have f: "fieldAt [StructField ''Ports'' ?t SliceInt] [0] = Some (StructField ''Ports'' ?t SliceInt)"
    by (simp add: fieldAt_def rootField_def)
  have i: "\<not> inert ?t SliceInt"
    by (simp add: inert_def noTag_def)
  have e: "effectiveValue ?X initialPkgvars ''Ports'' ?t = []"
    by (simp add: effectiveValue_def envDefault_def envName_def varDefault_def noTag_def
        testExtern_def initialPkgvars_def)
  from parse_int_slice_empty_fails [OF f i e, of "[]" exampleHeap "(exampleHeap, [])"]
  show ?thesis by blast
qed

section \<open>Precedence\<close>



section \<open>Two-phase resolution keeps a flag the user supplied\<close>

text \<open>
  Claim C4. Let the flags of the configuration struct be registered by \<^verbatim>\<open>RegisterFlags\<close>
  on a flag set, and let the external parser then set values and changed-bits as it
  likes. In \<^verbatim>\<open>ApplyEnvAndDefaults\<close>, for every field, at any depth, whose flag exists in the
  set with its changed-bit set, neither the field nor the variable that holds the flag's
  value is written, whatever the environment, the registry and the static default say, and
  also when the call ends with an error; the flag stays in the set, changed and bound as
  before.
\<close>

theorem ApplyEnvAndDefaults_keeps_changed_flag:
  assumes reg: "RegisterFlags X0 G0 fl (h0, []) = Inr (h1, fs1)"
    and same: "map (\<lambda>g. (flag_Name g, flag_Target g)) fs
                 = map (\<lambda>g. (flag_Name g, flag_Target g)) fs1"
    and field: "fieldAt fl p = Some (StructField name tag ty)" "tag_flag tag \<noteq> []"
    and look: "fs_Lookup fs (flagName tag) = Some g" "flag_Changed g"
    and run: "ApplyEnvAndDefaults X G fl (h, fs) = (eo, (h', fs'))"
  shows "h' (FieldAddr p) = h (FieldAddr p) \<and> h' (flag_Target g) = h (flag_Target g)
    \<and> (\<exists>g'. fs_Lookup fs' (flagName tag) = Some g' \<and> flag_Changed g'
           \<and> flag_Target g' = flag_Target g)"
proof -
  have ro: "registeredOn fl fs"
    by (rule registeredOn_cong [OF same RegisterFlags_registeredOn [OF reg]])
  from fs_Lookup_Some [OF look(1)] have gin: "g \<in> set fs" and gn: "flag_Name g = flagName tag"
    by simp_all
  from ro gin gn obtain qg ng tg tyg where
    G: "addrPath (flag_Target g) = Some qg" "fieldAt fl qg = Some (StructField ng tg tyg)"
      "flagName tg = flagName tag" "registers tg tyg"
    unfolding registeredOn_def by metis
  have key: "\<not> mayWrite fs a r (Tag lf) (Type lf)"
    if lf: "fieldAt fl r = Some lf" and a: "a = FieldAddr p \<or> a = flag_Target g" for a r lf
  proof
    assume mw: "mayWrite fs a r (Tag lf) (Type lf)"
    obtain nl tl tyl where l: "lf = StructField nl tl tyl" by (cases lf)
    from mw l consider
        (A) g' where "tag_flag tl \<noteq> []" "fs_Lookup fs (flagName tl) = Some g'"
          "\<not> flag_Changed g'" "flag_Target g' = a"
      | (B) "tag_flag tl = [] \<or> fs_Lookup fs (flagName tl) = None" "settable tyl" "a = FieldAddr r"
      by (auto simp: mayWrite_def split: if_splits option.splits)
    then show False
    proof cases
      case A
      from A(2,3) look have ne: "flagName tl \<noteq> flagName tag" by auto
      from fs_Lookup_Some [OF A(2)] have "g' \<in> set fs" "flag_Name g' = flagName tl" by simp_all
      with ro obtain q' n' t' ty' where
        g': "addrPath (flag_Target g') = Some q'" "fieldAt fl q' = Some (StructField n' t' ty')"
          "flagName t' = flagName tl"
        unfolding registeredOn_def by metis
      from a show False
      proof
        assume "a = FieldAddr p"
        with A(4) g'(1) have "q' = p" by simp
        with g'(2,3) field(1) ne show False by simp
      next
        assume "a = flag_Target g"
        with A(4) g'(1) G(1) have "q' = qg" by simp
        with g'(2,3) G(2,3) ne show False by simp
      qed
    next
      case B
      from a show False
      proof
        assume "a = FieldAddr p"
        with B(3) have "r = p" by simp
        with lf l field(1) have "tl = tag" by simp
        with B(1) field(2) look(1) show False by simp
      next
        assume "a = flag_Target g"
        with B(3) G(1) have "r = qg" by simp
        with lf l G(2) have t: "tl = tg" "tyl = tyg" by simp_all
        with B(1) G(3) look(1) have "tag_flag tg = []" by simp
        with G(4) have "isSlice tyg" by (simp add: registers_def)
        with B(2) t slice_not_settable show False by blast
      qed
    qed
  qed
  from run have r: "applyEnvAndDefaults_field X G [] (rootField fl) (h, fs) = (eo, (h', fs'))"
    by (simp add: ApplyEnvAndDefaults_def rootField_def)
  have nw: "\<forall>r lf. subfieldAt (rootField fl) r = Some lf \<longrightarrow> \<not> isStruct (Type lf) \<longrightarrow>
        \<not> mayWrite (snd (h, fs)) a ([] @ r) (Tag lf) (Type lf)"
    if "a = FieldAddr p \<or> a = flag_Target g" for a
    using key [OF _ that] by (simp add: fieldAt_def)
  from applyEnvAndDefaults_frames(2) [OF r nw, of "FieldAddr p"]
    applyEnvAndDefaults_frames(2) [OF r nw, of "flag_Target g"]
  have res: "h' (FieldAddr p) = h (FieldAddr p)" "h' (flag_Target g) = h (flag_Target g)"
    and sf: "sameFlags fs fs'"
    by simp_all
  from sameFlags_Lookup [OF sf, of "flagName tag"] look(1)
  obtain g' where g': "fs_Lookup fs' (flagName tag) = Some g'"
    "g'\<lparr>flag_ValueSet := False\<rparr> = g\<lparr>flag_ValueSet := False\<rparr>"
    by (cases "fs_Lookup fs' (flagName tag)") auto
  from g'(2) have "flag_Changed g' = flag_Changed g" "flag_Target g' = flag_Target g"
    by (auto dest: arg_cong [where f = flag_Changed] arg_cong [where f = flag_Target])
  with g'(1) look(2) res show ?thesis by simp
qed

theorem ApplyEnvAndDefaults_keeps_changed_flag_witness:
  "RegisterFlags (testExtern [''HOST'' \<mapsto> ''e'']) initialPkgvars
      [StructField ''Host'' (noTag\<lparr>tag_default := ''d'', tag_env := ''HOST'', tag_flag := ''host''\<rparr>)
         String]
      (exampleHeap, [])
    = Inr (exampleHeap(FieldAddr [0] := VString ''e''),
           [\<lparr>flag_Name = ''host'', flag_Shorthand = [], flag_Target = FieldAddr [0],
             flag_Type = String, flag_Changed = False, flag_ValueSet = False\<rparr>])
   \<and> fs_Parse (testExtern [''HOST'' \<mapsto> ''e'']) [(''host'', ''f'')]
      (exampleHeap(FieldAddr [0] := VString ''e''),
       [\<lparr>flag_Name = ''host'', flag_Shorthand = [], flag_Target = FieldAddr [0],
         flag_Type = String, flag_Changed = False, flag_ValueSet = False\<rparr>])
    = Inr (exampleHeap(FieldAddr [0] := VString ''f''),
           [\<lparr>flag_Name = ''host'', flag_Shorthand = [], flag_Target = FieldAddr [0],
             flag_Type = String, flag_Changed = True, flag_ValueSet = True\<rparr>])
   \<and> fst (snd (ApplyEnvAndDefaults (testExtern [''HOST'' \<mapsto> ''e'']) initialPkgvars
      [StructField ''Host'' (noTag\<lparr>tag_default := ''d'', tag_env := ''HOST'', tag_flag := ''host''\<rparr>)
         String]
      (exampleHeap(FieldAddr [0] := VString ''f''),
       [\<lparr>flag_Name = ''host'', flag_Shorthand = [], flag_Target = FieldAddr [0],
         flag_Type = String, flag_Changed = True, flag_ValueSet = True\<rparr>]))) (FieldAddr [0])
    = VString ''f''"
proof -
  let ?X = "testExtern [''HOST'' \<mapsto> ''e'']"
  let ?tag = "noTag\<lparr>tag_default := ''d'', tag_env := ''HOST'', tag_flag := ''host''\<rparr>"
  let ?fl = "[StructField ''Host'' ?tag String]"
  let ?g0 = "\<lparr>flag_Name = ''host'', flag_Shorthand = [], flag_Target = FieldAddr [0],
             flag_Type = String, flag_Changed = False, flag_ValueSet = False\<rparr>"
  let ?g1 = "\<lparr>flag_Name = ''host'', flag_Shorthand = [], flag_Target = FieldAddr [0],
             flag_Type = String, flag_Changed = True, flag_ValueSet = True\<rparr>"
  let ?h1 = "exampleHeap(FieldAddr [0] := VString ''e'')"
  let ?h = "exampleHeap(FieldAddr [0] := VString ''f'')"
  have r: "RegisterFlags ?X initialPkgvars ?fl (exampleHeap, []) = Inr (?h1, [?g0])"
    by (simp add: RegisterFlags_def execTags_leaf_def inert_def kindStruct_def noTag_def
        effectiveValue_def envDefault_def envName_def varDefault_def withAfter_def bindOrSet_def
        fs_Var_def fs_AddFlag_def fs_Lookup_def strings_Split_def testExtern_def initialPkgvars_def)
  have e: "fs_Parse ?X [(''host'', ''f'')] (?h1, [?g0]) = Inr (?h, [?g1])"
    by (simp add: fs_Set_def fs_Lookup_def flag_Value_Set_def)
  have s: "map (\<lambda>g. (flag_Name g, flag_Target g)) [?g1] = map (\<lambda>g. (flag_Name g, flag_Target g)) [?g0]"
    by simp
  have f: "fieldAt ?fl [0] = Some (StructField ''Host'' ?tag String)"
    by (simp add: fieldAt_def rootField_def)
  have t: "tag_flag ?tag \<noteq> []"
    by (simp add: noTag_def)
  have l: "fs_Lookup [?g1] (flagName ?tag) = Some ?g1"
    by (simp add: fs_Lookup_def flagName_def strings_Split_def noTag_def)
  have c: "flag_Changed ?g1"
    by simp
  obtain eo h' fs' where a: "ApplyEnvAndDefaults ?X initialPkgvars ?fl (?h, [?g1]) = (eo, (h', fs'))"
    by (cases "ApplyEnvAndDefaults ?X initialPkgvars ?fl (?h, [?g1])") auto
  from ApplyEnvAndDefaults_keeps_changed_flag [OF r s f t l c a]
  have "h' (FieldAddr [0]) = ?h (FieldAddr [0])" by simp
  with a have "fst (snd (ApplyEnvAndDefaults ?X initialPkgvars ?fl (?h, [?g1]))) (FieldAddr [0])
      = VString ''f''"
    by simp
  with r e show ?thesis by simp
qed

end
